theory Spec2Isabelle
  imports Main "HOL-Library.Word"
begin

section \<open>Data model of \<open>apps/wallets/wallet.py\<close>\<close>

text \<open>
  The wallet class works on objects of the bitcoin library (scripts, descriptors, keys,
  PSBT scopes). The library is not part of the verified file: each object is a record of
  the attributes and methods that \<open>wallet.py\<close> reads or calls, and library functions
  that are not methods of such an object are parameters of the functions that call them.
\<close>

type_synonym bytes = "8 word list"

type_synonym pubkey = bytes

type_synonym privkey = bytes

datatype error =
    WalletError string
  | IndexError
  | ValueError
  | TypeError
  | PSBTError
  | DescriptorError

text \<open>\<open>Script\<close>: the wallet reads \<open>script.data\<close> and compares scripts with \<open>==\<close>.\<close>

datatype script = Script (data: bytes)

text \<open>\<open>DerivationPath(fingerprint, derivation)\<close>.\<close>

record derivation_path =
  dp_fingerprint :: bytes
  dp_derivation :: "int list"

text \<open>
  A descriptor key. \<open>derive_pub steps\<close> stands for
  \<open>key.derive(steps).get_public_key()\<close>, a call into the library that can raise;
  \<open>allowed_derivation\<close> is \<open>None\<close> or a derivation pattern, of which the wallet
  only ever writes the default one.
\<close>

datatype allowed = AllowedDefault | AllowedGiven string

record key =
  key_fingerprint :: bytes
  key_derivation :: "int list"
  is_private :: bool
  is_extended :: bool
  allowed_derivation :: "allowed option"
  derive_pub :: "int list \<Rightarrow> error + pubkey"
  private_key :: privkey

text \<open>
  What the wallet asks of a derived descriptor \<open>descriptor.derive(...)\<close>. The
  library's \<open>witness_script()\<close> and \<open>redeem_script()\<close> are \<open>None\<close> for a
  descriptor that has no such script.
\<close>

record derived =
  d_script_pubkey :: script
  d_witness_script :: "script option"
  d_redeem_script :: "script option"
  d_keys :: "key list"

text \<open>
  The descriptor. The library computes \<open>num_branches\<close>, \<open>check_derivation\<close>,
  \<open>derive\<close> and \<open>str(descriptor)\<close> from the keys of the descriptor and their
  allowed derivations, which \<open>from_descriptor\<close> assigns: the record holds each of
  them as a function of the list of keys.
\<close>

record descriptor =
  keys :: "key list"
  scriptpubkey_type :: string
  script_len :: nat
  sh :: bool
  num_branches_with :: "key list \<Rightarrow> int"
  check_derivation_with :: "key list \<Rightarrow> derivation_path \<Rightarrow> (int \<times> int) option"
  derive_with :: "key list \<Rightarrow> int \<Rightarrow> int option \<Rightarrow> error + derived"
  to_string_with :: "key list \<Rightarrow> string"

definition num_branches :: "descriptor \<Rightarrow> int" where
  "num_branches d = num_branches_with d (keys d)"

text \<open>
  \<open>check_derivation\<close> returns the pair that the wallet unpacks as
  \<open>branch_idx, idx\<close>, or \<open>None\<close>.
\<close>

definition check_derivation :: "descriptor \<Rightarrow> derivation_path \<Rightarrow> (int \<times> int) option" where
  "check_derivation d = check_derivation_with d (keys d)"

text \<open>
  \<open>derive d idx branch_index\<close> is the library method
  \<open>derive(idx, branch_index=None)\<close>: the first positional parameter is the address index
  and the second the branch, as the calls \<open>derive(idx, branch_index=branch_idx)\<close> in
  \<open>script_pubkey\<close> and \<open>sign_psbt\<close> show.
\<close>

definition derive :: "descriptor \<Rightarrow> int \<Rightarrow> int option \<Rightarrow> error + derived" where
  "derive d = derive_with d (keys d)"

text \<open>\<open>str(descriptor)\<close>.\<close>

definition to_string :: "descriptor \<Rightarrow> string" where
  "to_string d = to_string_with d (keys d)"

record tx_out =
  txo_script_pubkey :: script

text \<open>
  A PSBT scope (input or output). \<open>bip32_derivations\<close> and \<open>unknown\<close> are
  dictionaries, kept as association lists in iteration order. \<open>prev_out\<close> is the
  previous output that \<open>psbt.utxo(i)\<close> finds for an input, if any.
\<close>

record scope =
  bip32_derivations :: "(pubkey \<times> derivation_path) list"
  witness_script :: "script option"
  redeem_script :: "script option"
  unknown :: "(bytes \<times> bytes) list"
  prev_out :: "tx_out option"
  partial_sigs :: "(pubkey \<times> bytes) list"

record psbt =
  inputs :: "scope list"
  outputs :: "scope list"
  vout :: "tx_out list"

type_synonym keystore = nat

record wallet =
  name :: string
  path :: "string option"
  descriptor :: descriptor
  gaps :: "int list"
  unused_recv :: int
  keystore :: "keystore option"

section \<open>Python list access\<close>

text \<open>
  The position that a Python index \<open>i\<close> denotes in a list of \<open>n\<close> elements:
  an index from \<open>-n\<close> to \<open>-1\<close> counts from the end, and an index outside
  \<open>-n \<dots> n - 1\<close> raises \<open>IndexError\<close>.
\<close>

definition py_index :: "nat \<Rightarrow> int \<Rightarrow> nat option" where
  "py_index n i =
     (if 0 \<le> i \<and> i < int n then Some (nat i)
      else if i < 0 \<and> - int n \<le> i then Some (nat (int n + i))
      else None)"

definition getitem :: "'a list \<Rightarrow> int \<Rightarrow> error + 'a" where
  "getitem xs i =
     (case py_index (length xs) i of None \<Rightarrow> Inl IndexError | Some k \<Rightarrow> Inr (xs ! k))"

definition setitem :: "'a list \<Rightarrow> int \<Rightarrow> 'a \<Rightarrow> error + 'a list" where
  "setitem xs i v =
     (case py_index (length xs) i of None \<Rightarrow> Inl IndexError | Some k \<Rightarrow> Inr (xs[k := v]))"

section \<open>Construction, derivation and ownership\<close>

definition GAP_LIMIT :: int where
  "GAP_LIMIT = 20"

fun rstrip_rev :: "string \<Rightarrow> string" where
  "rstrip_rev [] = []"
| "rstrip_rev (c # cs) = (if c = CHR ''/'' then rstrip_rev cs else c # cs)"

definition rstrip :: "string \<Rightarrow> string" where
  "rstrip s = rev (rstrip_rev (rev s))"

text \<open>\<open>Wallet.__init__\<close> (the directory that \<open>maybe_mkdir\<close> creates is not modelled).\<close>

definition Wallet :: "descriptor \<Rightarrow> string option \<Rightarrow> string \<Rightarrow> wallet" where
  "Wallet desc p nm =
     \<lparr> name = nm,
       path = map_option rstrip p,
       descriptor = desc,
       gaps = replicate (nat (num_branches desc)) GAP_LIMIT,
       unused_recv = 0,
       keystore = None \<rparr>"

text \<open>\<open>Wallet.script_pubkey\<close>: the derivation is the pair \<open>(branch_idx, idx)\<close>.\<close>

definition script_pubkey :: "wallet \<Rightarrow> int \<times> int \<Rightarrow> error + (script \<times> int)" where
  "script_pubkey w derivation =
     (case derivation of (branch_idx, idx) \<Rightarrow>
        if branch_idx < 0 \<or> branch_idx \<ge> num_branches (descriptor w)
        then Inl (WalletError ''Invalid branch index'')
        else if idx < 0 \<or> idx \<ge> 0x80000000
        then Inl (WalletError ''Invalid index'')
        else (case derive (descriptor w) idx (Some branch_idx) of
                Inl e \<Rightarrow> Inl e
              | Inr dd \<Rightarrow>
                  (case getitem (gaps w) branch_idx of
                     Inl e \<Rightarrow> Inl e
                   | Inr g \<Rightarrow> Inr (d_script_pubkey dd, g))))"

text \<open>\<open>Wallet.get_derivation\<close>: the first hint, in iteration order, that passes.\<close>

fun get_derivation :: "wallet \<Rightarrow> (pubkey \<times> derivation_path) list \<Rightarrow> (int \<times> int) option" where
  "get_derivation w [] = None"
| "get_derivation w ((pub, p) # rest) =
     (if length (dp_derivation p) \<ge> 2
      then (case check_derivation (descriptor w) p of
              Some der \<Rightarrow> Some der
            | None \<Rightarrow> get_derivation w rest)
      else get_derivation w rest)"

text \<open>
  \<open>Wallet.owns\<close>. \<open>stype\<close> is the library's \<open>Script.script_type\<close>. The script
  argument is \<open>None\<close> or a script object, and a script object counts as true.
\<close>

definition owns ::
  "(script \<Rightarrow> string) \<Rightarrow> wallet \<Rightarrow> tx_out \<Rightarrow> (pubkey \<times> derivation_path) list
     \<Rightarrow> script option \<Rightarrow> error + bool" where
  "owns stype w t ders scr =
     (if stype (txo_script_pubkey t) \<noteq> scriptpubkey_type (descriptor w) then Inr False
      else if (case scr of None \<Rightarrow> False
               | Some s \<Rightarrow> length (data s) \<noteq> script_len (descriptor w)) then Inr False
      else (case get_derivation w ders of
              None \<Rightarrow> Inr False
            | Some der \<Rightarrow>
                (case script_pubkey w der of
                   Inl e \<Rightarrow> Inl e
                 | Inr (sc, g) \<Rightarrow> Inr (sc = txo_script_pubkey t))))"

section \<open>Gap tracking\<close>

text \<open>\<open>a or b\<close> on two optional scripts.\<close>

definition script_or :: "script option \<Rightarrow> script option \<Rightarrow> script option" where
  "script_or a b = (case a of Some s \<Rightarrow> Some s | None \<Rightarrow> b)"

text \<open>\<open>psbt.utxo(i)\<close> for the input \<open>inp\<close>: the library raises when there is none.\<close>

definition utxo :: "scope \<Rightarrow> error + tx_out" where
  "utxo inp = (case prev_out inp of None \<Rightarrow> Inl PSBTError | Some t \<Rightarrow> Inr t)"

text \<open>First loop of \<open>update_gaps\<close>: the inputs the wallet owns.\<close>

fun owned_inputs :: "(script \<Rightarrow> string) \<Rightarrow> wallet \<Rightarrow> scope list \<Rightarrow> error + scope list" where
  "owned_inputs stype w [] = Inr []"
| "owned_inputs stype w (inp # rest) =
     (case utxo inp of
        Inl e \<Rightarrow> Inl e
      | Inr t \<Rightarrow>
          (case owns stype w t (bip32_derivations inp)
                  (script_or (witness_script inp) (redeem_script inp)) of
             Inl e \<Rightarrow> Inl e
           | Inr b \<Rightarrow>
               (case owned_inputs stype w rest of
                  Inl e \<Rightarrow> Inl e
                | Inr ss \<Rightarrow> Inr (if b then inp # ss else ss))))"

text \<open>Second loop: the outputs the wallet owns; \<open>psbt.tx.vout[i]\<close> may be missing.\<close>

fun owned_outputs ::
  "(script \<Rightarrow> string) \<Rightarrow> wallet \<Rightarrow> scope list \<Rightarrow> tx_out list \<Rightarrow> error + scope list" where
  "owned_outputs stype w [] vs = Inr []"
| "owned_outputs stype w (out # rest) [] = Inl IndexError"
| "owned_outputs stype w (out # rest) (v # vs) =
     (case owns stype w v (bip32_derivations out)
             (script_or (witness_script out) (redeem_script out)) of
        Inl e \<Rightarrow> Inl e
      | Inr b \<Rightarrow>
          (case owned_outputs stype w rest vs of
             Inl e \<Rightarrow> Inl e
           | Inr ss \<Rightarrow> Inr (if b then out # ss else ss)))"

text \<open>
  The body of the third loop for one recovered coordinate: the guard compares
  \<open>idx + GAP_LIMIT\<close> with the watermark, the assignment writes \<open>idx + GAP_LIMIT + 1\<close>.
  The list is changed in place, so an error leaves the list as it was at that moment.
\<close>

definition advance_psbt :: "int list \<Rightarrow> int \<times> int \<Rightarrow> error option \<times> int list" where
  "advance_psbt g res =
     (case res of (branch_idx, idx) \<Rightarrow>
        (case getitem g branch_idx of
           Inl e \<Rightarrow> (Some e, g)
         | Inr cur \<Rightarrow>
             if idx + GAP_LIMIT > cur
             then (case setitem g branch_idx (idx + GAP_LIMIT + 1) of
                     Inl e \<Rightarrow> (Some e, g)
                   | Inr g' \<Rightarrow> (None, g'))
             else (None, g)))"

fun advance_scopes :: "wallet \<Rightarrow> scope list \<Rightarrow> int list \<Rightarrow> error option \<times> int list" where
  "advance_scopes w [] g = (None, g)"
| "advance_scopes w (s # ss) g =
     (case get_derivation w (bip32_derivations s) of
        None \<Rightarrow> advance_scopes w ss g
      | Some res \<Rightarrow>
          (case advance_psbt g res of
             (Some e, g') \<Rightarrow> (Some e, g')
           | (None, g') \<Rightarrow> advance_scopes w ss g'))"

text \<open>
  The loop over \<open>enumerate(gaps)\<close> with the external hints; \<open>known_idxs[i]\<close> raises
  when the vector is shorter than the list of watermarks.
\<close>

fun advance_known :: "int option list \<Rightarrow> nat list \<Rightarrow> int list \<Rightarrow> error option \<times> int list" where
  "advance_known known [] g = (None, g)"
| "advance_known known (i # is) g =
     (if i < length known
      then (case known ! i of
              None \<Rightarrow> advance_known known is g
            | Some k \<Rightarrow>
                if k + GAP_LIMIT > g ! i
                then advance_known known is (g[i := k + GAP_LIMIT])
                else advance_known known is g)
      else (Some IndexError, g))"

definition update_from_psbt ::
  "(script \<Rightarrow> string) \<Rightarrow> wallet \<Rightarrow> psbt option \<Rightarrow> error option \<times> int list" where
  "update_from_psbt stype w po =
     (case po of
        None \<Rightarrow> (None, gaps w)
      | Some p \<Rightarrow>
          (case owned_inputs stype w (inputs p) of
             Inl e \<Rightarrow> (Some e, gaps w)
           | Inr si \<Rightarrow>
               (case owned_outputs stype w (outputs p) (vout p) of
                  Inl e \<Rightarrow> (Some e, gaps w)
                | Inr so \<Rightarrow> advance_scopes w (si @ so) (gaps w))))"

definition update_from_known :: "int option list option \<Rightarrow> int list \<Rightarrow> error option \<times> int list" where
  "update_from_known known_idxs g =
     (case known_idxs of
        None \<Rightarrow> (None, g)
      | Some known \<Rightarrow> advance_known known [0..<length g] g)"

text \<open>
  \<open>Wallet.update_gaps\<close>. The result is the exception raised, if any, and the wallet
  as the call leaves it.
\<close>

definition update_gaps ::
  "(script \<Rightarrow> string) \<Rightarrow> wallet \<Rightarrow> psbt option \<Rightarrow> int option list option
     \<Rightarrow> error option \<times> wallet" where
  "update_gaps stype w po known_idxs =
     (case update_from_psbt stype w po of
        (Some e, g) \<Rightarrow> (Some e, w\<lparr>gaps := g\<rparr>)
      | (None, g) \<Rightarrow>
          (case update_from_known known_idxs g of
             (Some e, g') \<Rightarrow> (Some e, w\<lparr>gaps := g'\<rparr>)
           | (None, g') \<Rightarrow>
               (case getitem g' 0 of
                  Inl e \<Rightarrow> (Some e, w\<lparr>gaps := g'\<rparr>)
                | Inr g0 \<Rightarrow> (None, w\<lparr>gaps := g', unused_recv := g0 - GAP_LIMIT\<rparr>))))"

section \<open>Wallet-tag resolution\<close>

text \<open>\<open>Wallet.fingerprint\<close>; \<open>hash160\<close> is the library's hash.\<close>

definition fingerprint :: "(string \<Rightarrow> bytes) \<Rightarrow> wallet \<Rightarrow> bytes" where
  "fingerprint hash160 w = take 4 (hash160 (to_string (descriptor w)))"

text \<open>\<open>int.from_bytes(bs, "little")\<close>.\<close>

fun from_bytes_little :: "bytes \<Rightarrow> int" where
  "from_bytes_little [] = 0"
| "from_bytes_little (b # bs) = uint b + 256 * from_bytes_little bs"

text \<open>The loop \<open>for i in range(len(der) // 4)\<close> over the slices \<open>der[4*i : 4*i+4]\<close>.\<close>

definition decode_steps :: "bytes \<Rightarrow> int list" where
  "decode_steps der =
     map (\<lambda>i. from_bytes_little (take 4 (drop (4 * i) der))) [0..<length der div 4]"

text \<open>\<open>d[k] = v\<close> on a dictionary kept in iteration order.\<close>

fun dict_set :: "('k \<times> 'v) list \<Rightarrow> 'k \<Rightarrow> 'v \<Rightarrow> ('k \<times> 'v) list" where
  "dict_set [] k v = [(k, v)]"
| "dict_set ((k', v') # rest) k v =
     (if k' = k then (k', v) # rest else (k', v') # dict_set rest k v)"

text \<open>
  The loop over \<open>self.descriptor.keys\<close> in \<open>fill_psbt\<close>. The dictionary is
  changed in place: when \<open>key.derive\<close> raises, the entries of the keys before it
  are there already.
\<close>

fun fill_keys ::
  "bytes \<Rightarrow> int list \<Rightarrow> key list \<Rightarrow> (pubkey \<times> derivation_path) list
     \<Rightarrow> error option \<times> (pubkey \<times> derivation_path) list" where
  "fill_keys fp wallet_derivation [] ders = (None, ders)"
| "fill_keys fp wallet_derivation (k # ks) ders =
     (if key_fingerprint k = fp
      then (case derive_pub k wallet_derivation of
              Inl e \<Rightarrow> (Some e, ders)
            | Inr pub \<Rightarrow>
                fill_keys fp wallet_derivation ks
                  (dict_set ders pub
                     \<lparr> dp_fingerprint = fp,
                       dp_derivation = key_derivation k @ wallet_derivation \<rparr>))
      else fill_keys fp wallet_derivation ks ders)"

text \<open>
  \<open>self.descriptor.derive(*wallet_derivation)\<close>: the elements of the list are passed
  as positional arguments, the first to \<open>idx\<close> and the second to \<open>branch_index\<close>.
\<close>

definition derive_star :: "descriptor \<Rightarrow> int list \<Rightarrow> error + derived" where
  "derive_star d args =
     (case args of
        [a] \<Rightarrow> derive d a None
      | [a, b] \<Rightarrow> derive d a (Some b)
      | _ \<Rightarrow> Inl TypeError)"

text \<open>The body of the loop of \<open>fill_psbt\<close> for one input.\<close>

definition fill_scope ::
  "(string \<Rightarrow> bytes) \<Rightarrow> wallet \<Rightarrow> bytes \<Rightarrow> scope \<Rightarrow> error option \<times> scope" where
  "fill_scope hash160 w fp sc =
     (let wallet_key = [0xfc, 0xca, 0x01] @ fingerprint hash160 w in
      case map_of (unknown sc) wallet_key of
        None \<Rightarrow> (None, sc)
      | Some der \<Rightarrow>
          (let wallet_derivation = decode_steps der in
           case fill_keys fp wallet_derivation (keys (descriptor w)) (bip32_derivations sc) of
             (Some e, ders) \<Rightarrow> (Some e, sc\<lparr>bip32_derivations := ders\<rparr>)
           | (None, ders) \<Rightarrow>
               (let sc1 = sc\<lparr>bip32_derivations := ders\<rparr>
                in case derive_star (descriptor w) wallet_derivation of
                     Inl e \<Rightarrow> (Some e, sc1)
                   | Inr dd \<Rightarrow>
                       (let sc2 = sc1\<lparr>witness_script := d_witness_script dd\<rparr>
                        in if sh (descriptor w)
                           then (case derive_star (descriptor w) wallet_derivation of
                                   Inl e \<Rightarrow> (Some e, sc2)
                                 | Inr dd' \<Rightarrow>
                                     (None, sc2\<lparr>redeem_script := d_redeem_script dd'\<rparr>))
                           else (None, sc2)))))"

fun fill_inputs ::
  "(string \<Rightarrow> bytes) \<Rightarrow> wallet \<Rightarrow> bytes \<Rightarrow> scope list \<Rightarrow> error option \<times> scope list" where
  "fill_inputs hash160 w fp [] = (None, [])"
| "fill_inputs hash160 w fp (s # ss) =
     (case fill_scope hash160 w fp s of
        (Some e, s') \<Rightarrow> (Some e, s' # ss)
      | (None, s') \<Rightarrow>
          (case fill_inputs hash160 w fp ss of (e, ss') \<Rightarrow> (e, s' # ss')))"

text \<open>\<open>Wallet.fill_psbt\<close>: the exception raised, if any, and the PSBT as it is left.\<close>

definition fill_psbt ::
  "(string \<Rightarrow> bytes) \<Rightarrow> wallet \<Rightarrow> psbt \<Rightarrow> bytes \<Rightarrow> error option \<times> psbt" where
  "fill_psbt hash160 w p fp =
     (case fill_inputs hash160 w fp (inputs p) of (e, ins) \<Rightarrow> (e, p\<lparr>inputs := ins\<rparr>))"

section \<open>Signing\<close>

definition has_private_keys :: "wallet \<Rightarrow> bool" where
  "has_private_keys w = list_ex is_private (keys (descriptor w))"

text \<open>
  \<open>sign_with\<close> is the library's \<open>psbt.sign_with(private_key, sighash)\<close>, which adds
  signatures to the PSBT; the loop reads the inputs and their claimed derivations of the
  PSBT it was given.
\<close>

fun sign_keys :: "(privkey \<Rightarrow> nat \<Rightarrow> psbt \<Rightarrow> psbt) \<Rightarrow> nat \<Rightarrow> key list \<Rightarrow> psbt \<Rightarrow> psbt" where
  "sign_keys sign_with sighash [] p = p"
| "sign_keys sign_with sighash (k # ks) p =
     (if is_private k
      then sign_keys sign_with sighash ks (sign_with (private_key k) sighash p)
      else sign_keys sign_with sighash ks p)"

fun sign_inputs ::
  "(privkey \<Rightarrow> nat \<Rightarrow> psbt \<Rightarrow> psbt) \<Rightarrow> wallet \<Rightarrow> nat \<Rightarrow> scope list \<Rightarrow> psbt
     \<Rightarrow> error option \<times> psbt" where
  "sign_inputs sign_with w sighash [] p = (None, p)"
| "sign_inputs sign_with w sighash (inp # rest) p =
     (case get_derivation w (bip32_derivations inp) of
        None \<Rightarrow> sign_inputs sign_with w sighash rest p
      | Some (branch, idx) \<Rightarrow>
          (case derive (descriptor w) idx (Some branch) of
             Inl e \<Rightarrow> (Some e, p)
           | Inr derived \<Rightarrow>
               sign_inputs sign_with w sighash rest
                 (sign_keys sign_with sighash (filter is_private (d_keys derived)) p)))"

definition sign_psbt ::
  "(privkey \<Rightarrow> nat \<Rightarrow> psbt \<Rightarrow> psbt) \<Rightarrow> wallet \<Rightarrow> psbt \<Rightarrow> nat \<Rightarrow> error option \<times> psbt" where
  "sign_psbt sign_with w p sighash =
     (if \<not> has_private_keys w then (None, p)
      else sign_inputs sign_with w sighash (inputs p) p)"

section \<open>Display string and parsing\<close>

text \<open>\<open>s.split(c)\<close>: cuts at every occurrence of the separator.\<close>

fun str_split :: "char \<Rightarrow> string \<Rightarrow> string list" where
  "str_split c [] = [[]]"
| "str_split c (x # xs) =
     (if x = c then [] # str_split c xs
      else (case str_split c xs of
              [] \<Rightarrow> [[x]]
            | y # ys \<Rightarrow> (x # y) # ys))"

text \<open>
  \<open>Wallet.from_descriptor\<close>; \<open>from_string\<close> is the library's
  \<open>Descriptor.from_string\<close>. The keys are changed in place, and what the
  descriptor computes from its keys changes with them.
\<close>

definition from_descriptor ::
  "(string \<Rightarrow> error + descriptor) \<Rightarrow> string \<Rightarrow> string option \<Rightarrow> error + wallet" where
  "from_descriptor from_string desc p =
     (let desc' = filter (\<lambda>c. c \<noteq> CHR '' '')
                    (case str_split CHR ''#'' desc of [] \<Rightarrow> [] | x # xs \<Rightarrow> x)
      in case from_string desc' of
           Inl e \<Rightarrow> Inl e
         | Inr d \<Rightarrow>
             (let no_derivation =
                    list_all (\<lambda>k. is_extended k \<and> allowed_derivation k = None) (keys d);
                  d' = (if no_derivation
                        then d\<lparr>keys := map (\<lambda>k. if is_extended k
                                                 then k\<lparr>allowed_derivation := Some AllowedDefault\<rparr>
                                                 else k) (keys d)\<rparr>
                        else d)
              in Inr (Wallet d' p ''Untitled'')))"

text \<open>\<open>Wallet.parse\<close>: \<open>name, desc = desc.split("&")\<close> needs exactly two parts.\<close>

definition parse ::
  "(string \<Rightarrow> error + descriptor) \<Rightarrow> string \<Rightarrow> string option \<Rightarrow> error + wallet" where
  "parse from_string desc p =
     (if CHR ''&'' \<in> set desc
      then (case str_split CHR ''&'' desc of
              [nm, d] \<Rightarrow>
                (case from_descriptor from_string d p of
                   Inl e \<Rightarrow> Inl e
                 | Inr w \<Rightarrow> Inr (w\<lparr>name := nm\<rparr>))
            | _ \<Rightarrow> Inl ValueError)
      else (case from_descriptor from_string desc p of
              Inl e \<Rightarrow> Inl e
            | Inr w \<Rightarrow> Inr (w\<lparr>name := ''Untitled''\<rparr>)))"

text \<open>\<open>Wallet.__str__\<close>.\<close>

definition wallet_str :: "wallet \<Rightarrow> string" where
  "wallet_str w = name w @ ''&'' @ to_string (descriptor w)"

section \<open>Saving\<close>

text \<open>
  What \<open>keystore.save_aead\<close> is given to write: the descriptor string, and the JSON
  object with the watermarks, the name and \<open>unused_recv\<close>. The files are a dictionary
  from path to content.
\<close>

datatype blob = DescriptorBlob string | MetaBlob "int list" string int

text \<open>
  \<open>Wallet.save\<close>: the exception raised, if any, the wallet and the files as the call
  leaves them.
\<close>

definition save ::
  "wallet \<Rightarrow> (string \<times> blob) list \<Rightarrow> keystore \<Rightarrow> string option
     \<Rightarrow> error option \<times> wallet \<times> (string \<times> blob) list" where
  "save w files ks p =
     (let w1 = w\<lparr>keystore := Some ks\<rparr>;
          w2 = (case p of None \<Rightarrow> w1 | Some q \<Rightarrow> w1\<lparr>path := Some (rstrip q)\<rparr>)
      in case path w2 of
           None \<Rightarrow> (Some (WalletError ''Path is not defined''), w2, files)
         | Some pth \<Rightarrow>
             (None, w2,
              dict_set
                (dict_set files (pth @ ''/descriptor'')
                   (DescriptorBlob (to_string (descriptor w2))))
                (pth @ ''/meta'')
                (MetaBlob (gaps w2) (name w2) (unused_recv w2))))"

section \<open>Invariants of the two loops of \<open>update_gaps\<close>\<close>

text \<open>
  \<open>covered w ss g\<close>: every coordinate recovered from the scopes \<open>ss\<close> is at least
  \<open>GAP_LIMIT\<close> below the watermark of its branch in \<open>g\<close>.
\<close>

definition covered :: "wallet \<Rightarrow> scope list \<Rightarrow> int list \<Rightarrow> bool" where
  "covered w ss g \<longleftrightarrow>
     (\<forall>s \<in> set ss. \<forall>b i. get_derivation w (bip32_derivations s) = Some (b, i) \<longrightarrow>
        (\<exists>cur. getitem g b = Inr cur \<and> i + GAP_LIMIT \<le> cur))"

text \<open>
  \<open>hinted known is g\<close>: the hint vector has an entry for each position of \<open>is\<close>,
  and each hint that is not \<open>None\<close> is at least \<open>GAP_LIMIT\<close> below the watermark.
\<close>

definition hinted :: "int option list \<Rightarrow> nat list \<Rightarrow> int list \<Rightarrow> bool" where
  "hinted known is g \<longleftrightarrow>
     (\<forall>i \<in> set is. i < length known \<and> (\<forall>k. known ! i = Some k \<longrightarrow> k + GAP_LIMIT \<le> g ! i))"

section \<open>An example wallet\<close>

text \<open>
  A descriptor \<open>wsh(pk(xpub/{0,1}/*))\<close> with one key, used to run the definitions. It
  stands in for the library: the key has two branches once it has an allowed derivation;
  a hint passes when its last two steps are a branch \<open>0\<close> or \<open>1\<close> and an index,
  which the library does not bound; the scripts of a derived descriptor record the branch
  and the index they were derived at; and \<open>key.derive\<close>, whose parameter is an
  integer index, raises \<open>TypeError\<close> on the list of steps that \<open>fill_psbt\<close>
  gives it.
\<close>

definition ex_key :: "allowed option \<Rightarrow> key" where
  "ex_key a =
     \<lparr> key_fingerprint = [0xde, 0xad, 0xbe, 0xef],
       key_derivation = [84, 0, 0],
       is_private = False,
       is_extended = True,
       allowed_derivation = a,
       derive_pub = (\<lambda>steps. Inl TypeError),
       private_key = [] \<rparr>"

definition ex_allowed :: "key list \<Rightarrow> bool" where
  "ex_allowed ks = list_ex (\<lambda>k. allowed_derivation k \<noteq> None) ks"

definition ex_num_branches :: "key list \<Rightarrow> int" where
  "ex_num_branches ks = (if ex_allowed ks then 2 else 1)"

definition ex_check :: "key list \<Rightarrow> derivation_path \<Rightarrow> (int \<times> int) option" where
  "ex_check ks p =
     (if ex_allowed ks
      then (case rev (dp_derivation p) of
              idx # b # _ \<Rightarrow> if b = 0 \<or> b = 1 then Some (b, idx) else None
            | _ \<Rightarrow> None)
      else None)"

definition ex_derive :: "key list \<Rightarrow> int \<Rightarrow> int option \<Rightarrow> error + derived" where
  "ex_derive ks idx branch_index =
     (let b = (case branch_index of None \<Rightarrow> 0 | Some b \<Rightarrow> b) in
      if b < 0 \<or> ex_num_branches ks \<le> b then Inl DescriptorError
      else Inr \<lparr> d_script_pubkey = Script [0x00, 0x20, word_of_int b, word_of_int idx],
                 d_witness_script = Some (Script [0x51, word_of_int b, word_of_int idx]),
                 d_redeem_script = None,
                 d_keys = ks \<rparr>)"

definition ex_to_string :: "key list \<Rightarrow> string" where
  "ex_to_string ks = ''wsh(pk(xpub'' @ (if ex_allowed ks then ''/{0,1}/*'' else []) @ ''))''"

definition ex_descriptor_of :: "key list \<Rightarrow> descriptor" where
  "ex_descriptor_of ks =
     \<lparr> keys = ks,
       scriptpubkey_type = ''p2wsh'',
       script_len = 3,
       sh = False,
       num_branches_with = ex_num_branches,
       check_derivation_with = ex_check,
       derive_with = ex_derive,
       to_string_with = ex_to_string \<rparr>"

definition ex_descriptor :: descriptor where
  "ex_descriptor = ex_descriptor_of [ex_key (Some AllowedDefault)]"

definition ex_stype :: "script \<Rightarrow> string" where
  "ex_stype s = (if take 2 (data s) = [0x00, 0x20] then ''p2wsh'' else ''unknown'')"

definition ex_hash160 :: "string \<Rightarrow> bytes" where
  "ex_hash160 s = [0x11, 0x22, 0x33, 0x44, 0x55]"

definition ex_wallet :: wallet where
  "ex_wallet = Wallet ex_descriptor None ''Untitled''"

text \<open>The claimed derivation path of the example key for the coordinate \<open>(b, i)\<close>.\<close>

definition ex_path :: "int \<Rightarrow> int \<Rightarrow> derivation_path" where
  "ex_path b i = \<lparr> dp_fingerprint = [0xde, 0xad, 0xbe, 0xef], dp_derivation = [84, 0, 0, b, i] \<rparr>"

text \<open>A scope that claims the coordinate \<open>(b, i)\<close>, and the output it belongs to.\<close>

definition ex_scope :: "int \<Rightarrow> int \<Rightarrow> scope" where
  "ex_scope b i =
     \<lparr> bip32_derivations = [([0x02], ex_path b i)],
       witness_script = None,
       redeem_script = None,
       unknown = [],
       prev_out = None,
       partial_sigs = [] \<rparr>"

definition ex_out :: "int \<Rightarrow> int \<Rightarrow> tx_out" where
  "ex_out b i = \<lparr> txo_script_pubkey = Script [0x00, 0x20, word_of_int b, word_of_int i] \<rparr>"

text \<open>A PSBT without inputs whose outputs are owned at the given coordinates.\<close>

definition ex_psbt :: "(int \<times> int) list \<Rightarrow> psbt" where
  "ex_psbt cs =
     \<lparr> inputs = [],
       outputs = map (\<lambda>(b, i). ex_scope b i) cs,
       vout = map (\<lambda>(b, i). ex_out b i) cs \<rparr>"

text \<open>
  An input tagged with the wallet's fingerprint; the value of the tag is the steps
  \<open>[0, 1]\<close> as little-endian 32-bit integers.
\<close>

definition ex_tagged :: scope where
  "ex_tagged =
     \<lparr> bip32_derivations = [],
       witness_script = None,
       redeem_script = None,
       unknown = [([0xfc, 0xca, 0x01, 0x11, 0x22, 0x33, 0x44], [0, 0, 0, 0, 1, 0, 0, 0])],
       prev_out = None,
       partial_sigs = [] \<rparr>"

text \<open>
  A descriptor parser that accepts the example descriptor, written with or without the
  derivation of its key, and nothing else.
\<close>

definition ex_from_string :: "string \<Rightarrow> error + descriptor" where
  "ex_from_string s =
     (if s = ''wsh(pk(xpub/{0,1}/*))'' then Inr (ex_descriptor_of [ex_key (Some AllowedDefault)])
      else if s = ''wsh(pk(xpub))'' then Inr (ex_descriptor_of [ex_key None])
      else Inl DescriptorError)"

text \<open>The name and the descriptor string of a parsed wallet.\<close>

definition name_and_descriptor :: "error + wallet \<Rightarrow> error + string \<times> string" where
  "name_and_descriptor r = map_sum id (\<lambda>w. (name w, to_string (descriptor w))) r"

text \<open>A signer that records the key it was called with.\<close>

definition ex_sign_with :: "privkey \<Rightarrow> nat \<Rightarrow> psbt \<Rightarrow> psbt" where
  "ex_sign_with k sighash p =
     p\<lparr>inputs := map (\<lambda>s. s\<lparr>partial_sigs := partial_sigs s @ [(k, [])]\<rparr>) (inputs p)\<rparr>"

section \<open>Gap tracking on the example wallet\<close>

text \<open>
  C1. The claim: after \<open>update_gaps\<close> the watermark of a branch is the maximum of the
  old watermark and \<open>observed_index + GAP_LIMIT + 1\<close> over the coordinates recovered
  from the PSBT, also when the old watermark equals \<open>observed_index + GAP_LIMIT\<close>.
  The guard of the loop compares \<open>idx + GAP_LIMIT\<close> with the watermark, one less than
  the value it assigns: a fresh wallet (watermarks \<open>[20, 20]\<close>) that is shown its own
  output at branch 0, index 0 keeps the watermark 20, where the maximum is 21, and
  \<open>unused_recv\<close> stays at the used index 0.
\<close>

theorem update_gaps_boundary_index_not_advanced:
  "owns ex_stype ex_wallet (ex_out 0 0) (bip32_derivations (ex_scope 0 0)) None = Inr True \<and>
   get_derivation ex_wallet (bip32_derivations (ex_scope 0 0)) = Some (0, 0) \<and>
   fst (update_gaps ex_stype ex_wallet (Some (ex_psbt [(0, 0)])) None) = None \<and>
   gaps (snd (update_gaps ex_stype ex_wallet (Some (ex_psbt [(0, 0)])) None)) = [20, 20] \<and>
   unused_recv (snd (update_gaps ex_stype ex_wallet (Some (ex_psbt [(0, 0)])) None)) = 0 \<and>
   max 20 (0 + GAP_LIMIT + 1) = 21"
  by code_simp

text \<open>
  C3. The claim: two observations applied to a watermark in either order give the same
  watermark. With the guard of the PSBT loop they do not: from the watermark 20, the
  indices 1 and 2 of branch 0 give 22 in this order and 23 in the other.
\<close>

theorem update_gaps_scope_order_matters:
  "gaps (snd (update_gaps ex_stype ex_wallet (Some (ex_psbt [(0, 1), (0, 2)])) None)) = [22, 20] \<and>
   gaps (snd (update_gaps ex_stype ex_wallet (Some (ex_psbt [(0, 2), (0, 1)])) None)) = [23, 20]"
  by code_simp

text \<open>
  C6. The claim: over any sequence of \<open>update_gaps\<close> calls a watermark never
  decreases and ends at or above every \<open>observed_index + margin\<close>. After the hint
  "index 5 on branch 0" (watermark 25) a PSBT that shows index 5 of branch 0 as used leaves
  the watermark at 25, below \<open>5 + GAP_LIMIT + 1 = 26\<close>.
\<close>

theorem update_gaps_hint_then_psbt_below_margin:
  "gaps (snd (update_gaps ex_stype ex_wallet None (Some [Some 5, None]))) = [25, 20] \<and>
   gaps (snd (update_gaps ex_stype
                (snd (update_gaps ex_stype ex_wallet None (Some [Some 5, None])))
                (Some (ex_psbt [(0, 5)])) None)) = [25, 20] \<and>
   25 < 5 + GAP_LIMIT + 1"
  by code_simp

section \<open>Wallet-tag resolution on the example wallet\<close>

text \<open>
  C2. The claim: for an input tagged with the steps \<open>[b, i]\<close>, \<open>fill_psbt\<close> sets
  the witness script to that of the descriptor derived at branch \<open>b\<close> and index
  \<open>i\<close>, and adds the claimed derivation of every key of the signer. The code differs
  twice. The call \<open>derive(*wallet_derivation)\<close> passes \<open>b\<close> as the index and
  \<open>i\<close> as the branch: for the steps \<open>[0, 1]\<close> and a signer that has no key in the
  descriptor, the witness script written is that of branch 1, index 0. And for the signer
  of the descriptor's key, \<open>key.derive(wallet_derivation)\<close> raises before anything
  is written: no claimed derivation is added and no script is set.
\<close>

theorem fill_psbt_derives_swapped_coordinate:
  "decode_steps [0, 0, 0, 0, 1, 0, 0, 0] = [0, 1] \<and>
   map key_fingerprint (keys (descriptor ex_wallet)) = [[0xde, 0xad, 0xbe, 0xef]] \<and>
   fst (fill_psbt ex_hash160 ex_wallet \<lparr>inputs = [ex_tagged], outputs = [], vout = []\<rparr>
          [0, 0, 0, 0]) = None \<and>
   map witness_script
     (inputs (snd (fill_psbt ex_hash160 ex_wallet
                     \<lparr>inputs = [ex_tagged], outputs = [], vout = []\<rparr> [0, 0, 0, 0])))
     = [Some (Script [0x51, 1, 0])] \<and>
   map_sum id d_witness_script (derive ex_descriptor 1 (Some 0)) = Inr (Some (Script [0x51, 0, 1])) \<and>
   map_sum id d_witness_script (derive ex_descriptor 0 (Some 1)) = Inr (Some (Script [0x51, 1, 0])) \<and>
   fst (fill_psbt ex_hash160 ex_wallet \<lparr>inputs = [ex_tagged], outputs = [], vout = []\<rparr>
          [0xde, 0xad, 0xbe, 0xef]) = Some TypeError \<and>
   map witness_script
     (inputs (snd (fill_psbt ex_hash160 ex_wallet
                     \<lparr>inputs = [ex_tagged], outputs = [], vout = []\<rparr>
                     [0xde, 0xad, 0xbe, 0xef]))) = [None] \<and>
   map bip32_derivations
     (inputs (snd (fill_psbt ex_hash160 ex_wallet
                     \<lparr>inputs = [ex_tagged], outputs = [], vout = []\<rparr>
                     [0xde, 0xad, 0xbe, 0xef]))) = [[]]"
  by code_simp

text \<open>
  What \<open>fill_psbt\<close> does to one input in general: nothing without the tag; with the
  tag, the loop over the keys first, which stops at the first key of the signer whose
  derivation raises, and then, for the steps \<open>[b, i]\<close>, the scripts of
  \<open>derive(b, i)\<close>, with \<open>b\<close> in the place of the index.
\<close>

lemma fill_scope_untagged:
  "map_of (unknown sc) ([0xfc, 0xca, 0x01] @ fingerprint hash160 w) = None \<Longrightarrow>
   fill_scope hash160 w fp sc = (None, sc)"
  by (simp add: fill_scope_def)

lemma fill_keys_no_match:
  "\<forall>k \<in> set ks. key_fingerprint k \<noteq> fp \<Longrightarrow> fill_keys fp wd ks ders = (None, ders)"
  by (induction ks) simp_all

lemma fill_keys_raises:
  "key_fingerprint k = fp \<Longrightarrow> derive_pub k wd = Inl e \<Longrightarrow>
   fill_keys fp wd (k # ks) ders = (Some e, ders)"
  by simp

lemma fill_scope_tagged:
  assumes "map_of (unknown sc) ([0xfc, 0xca, 0x01] @ fingerprint hash160 w) = Some der"
    and "decode_steps der = [b, i]"
    and "fill_keys fp [b, i] (keys (descriptor w)) (bip32_derivations sc) = (None, ders)"
    and "derive (descriptor w) b (Some i) = Inr dd"
  shows "fill_scope hash160 w fp sc =
           (None,
            if sh (descriptor w)
            then sc\<lparr>bip32_derivations := ders,
                    witness_script := d_witness_script dd,
                    redeem_script := d_redeem_script dd\<rparr>
            else sc\<lparr>bip32_derivations := ders, witness_script := d_witness_script dd\<rparr>)"
  using assms by (simp add: fill_scope_def derive_star_def Let_def)

lemma fill_scope_key_raises:
  assumes "map_of (unknown sc) ([0xfc, 0xca, 0x01] @ fingerprint hash160 w) = Some der"
    and "fill_keys fp (decode_steps der) (keys (descriptor w)) (bip32_derivations sc) = (Some e, ders)"
  shows "fill_scope hash160 w fp sc = (Some e, sc\<lparr>bip32_derivations := ders\<rparr>)"
  using assms by (simp add: fill_scope_def Let_def)

section \<open>Signing without private keys\<close>

text \<open>
  C9. When no key of the descriptor is private, \<open>sign_psbt\<close> returns at once and the
  PSBT is the one it was given, for every PSBT, every sighash mode and every signer.
\<close>

theorem sign_psbt_watch_only_noop:
  "\<forall>k \<in> set (keys (descriptor w)). \<not> is_private k \<Longrightarrow>
   sign_psbt sign_with w p sighash = (None, p)"
  by (simp add: sign_psbt_def has_private_keys_def list_ex_iff)

theorem sign_psbt_watch_only_noop_witness:
  "map is_private (keys (descriptor ex_wallet)) = [False] \<and>
   sign_psbt ex_sign_with ex_wallet \<lparr>inputs = [ex_scope 0 3], outputs = [], vout = []\<rparr> 1
     = (None, \<lparr>inputs = [ex_scope 0 3], outputs = [], vout = []\<rparr>)"
proof -
  have h: "\<forall>k \<in> set (keys (descriptor ex_wallet)). \<not> is_private k"
    by (simp add: ex_wallet_def Wallet_def ex_descriptor_def ex_descriptor_of_def ex_key_def)
  have ks: "map is_private (keys (descriptor ex_wallet)) = [False]"
    by (simp add: ex_wallet_def Wallet_def ex_descriptor_def ex_descriptor_of_def ex_key_def)
  from sign_psbt_watch_only_noop [OF h] ks show ?thesis by simp
qed

section \<open>Saving a wallet that has no path\<close>

text \<open>
  C10. \<open>save\<close> on a wallet whose path is \<open>None\<close>, called without a path, raises a
  \<open>WalletError\<close>; the keystore is bound by then, and nothing else has changed.
\<close>

theorem save_without_path_binds_keystore:
  "path w = None \<Longrightarrow>
   save w files ks None =
     (Some (WalletError ''Path is not defined''), w\<lparr>keystore := Some ks\<rparr>, files)"
  by (simp add: save_def)

theorem save_without_path_binds_keystore_witness:
  "path ex_wallet = None \<and>
   save ex_wallet [] 7 None =
     (Some (WalletError ''Path is not defined''), ex_wallet\<lparr>keystore := Some 7\<rparr>, [])"
proof -
  have h: "path ex_wallet = None" by (simp add: ex_wallet_def Wallet_def)
  from save_without_path_binds_keystore [OF h] h show ?thesis by simp
qed

section \<open>Watermarks only grow\<close>

lemma py_index_less: "py_index n i = Some k \<Longrightarrow> k < n"
  by (auto simp: py_index_def split: if_splits)

lemma getitem_Inr_iff:
  "getitem xs i = Inr v \<longleftrightarrow> (\<exists>k. py_index (length xs) i = Some k \<and> v = xs ! k)"
  by (auto simp: getitem_def split: option.splits)

lemma le_list_refl: "list_all2 (\<le>) (g :: int list) g"
  by (simp add: list_all2_conv_all_nth)

lemma le_list_trans:
  "list_all2 (\<le>) (a :: int list) b \<Longrightarrow> list_all2 (\<le>) b c \<Longrightarrow> list_all2 (\<le>) a c"
  using list_all2_trans[of "(\<le>)" "(\<le>)" "(\<le>)" a b c] by auto

lemma le_list_update:
  assumes "k < length g \<Longrightarrow> g ! k \<le> (v::int)"
  shows "list_all2 (\<le>) g (g[k := v])"
  using assms by (cases "k < length g") (auto simp: list_all2_conv_all_nth nth_list_update)

lemma le_list_nth:
  assumes "list_all2 (\<le>) g g'" and "i < length g" and "(v::int) \<le> g ! i"
  shows "v \<le> g' ! i"
proof -
  from assms(1,2) have "g ! i \<le> g' ! i" by (simp add: list_all2_conv_all_nth)
  with assms(3) show ?thesis by simp
qed

lemma getitem_mono:
  assumes "list_all2 (\<le>) g g'" and "getitem g b = Inr cur" and "(v::int) \<le> cur"
  shows "\<exists>cur'. getitem g' b = Inr cur' \<and> v \<le> cur'"
proof -
  from assms(2) obtain k where k: "py_index (length g) b = Some k" and cur: "cur = g ! k"
    by (auto simp: getitem_Inr_iff)
  from assms(1) have len: "length g' = length g" by (simp add: list_all2_lengthD)
  from k have "k < length g" by (rule py_index_less)
  with assms(1) assms(3) cur have "v \<le> g' ! k" by (intro le_list_nth[of g g' k]) simp_all
  with k len show ?thesis by (simp add: getitem_def)
qed

text \<open>What one step of the PSBT loop does at a valid position.\<close>

lemma advance_psbt_at:
  assumes "py_index (length g) b = Some k"
  shows "advance_psbt g (b, i) =
           (None, if i + GAP_LIMIT > g ! k then g[k := i + GAP_LIMIT + 1] else g)"
  using assms by (simp add: advance_psbt_def getitem_def setitem_def)

lemma advance_psbt_invalid:
  assumes "py_index (length g) b = None"
  shows "advance_psbt g (b, i) = (Some IndexError, g)"
  using assms by (simp add: advance_psbt_def getitem_def)

lemma advance_psbt_mono:
  assumes "advance_psbt g res = (e, g')"
  shows "list_all2 (\<le>) g g'"
proof -
  obtain b i where res: "res = (b, i)" by (cases res)
  show ?thesis
  proof (cases "py_index (length g) b")
    case None
    from assms have "g' = g" unfolding res advance_psbt_invalid[OF None] by simp
    then show ?thesis by (simp add: le_list_refl)
  next
    case (Some k)
    from assms have g': "g' = (if i + GAP_LIMIT > g ! k then g[k := i + GAP_LIMIT + 1] else g)"
      unfolding res advance_psbt_at[OF Some] by simp
    show ?thesis
    proof (cases "i + GAP_LIMIT > g ! k")
      case True
      then have "g ! k \<le> i + GAP_LIMIT + 1" by simp
      then have "list_all2 (\<le>) g (g[k := i + GAP_LIMIT + 1])" by (intro le_list_update)
      with True g' show ?thesis by simp
    next
      case False
      with g' show ?thesis by (simp add: le_list_refl)
    qed
  qed
qed

lemma advance_psbt_covers:
  assumes "advance_psbt g (b, i) = (None, g')"
  shows "\<exists>cur. getitem g' b = Inr cur \<and> i + GAP_LIMIT \<le> cur"
proof (cases "py_index (length g) b")
  case None
  from assms show ?thesis unfolding advance_psbt_invalid[OF None] by simp
next
  case (Some k)
  from Some have kl: "k < length g" by (rule py_index_less)
  from assms have g': "g' = (if i + GAP_LIMIT > g ! k then g[k := i + GAP_LIMIT + 1] else g)"
    unfolding advance_psbt_at[OF Some] by simp
  show ?thesis
  proof (cases "i + GAP_LIMIT > g ! k")
    case True
    with g' Some kl show ?thesis by (simp add: getitem_def)
  next
    case False
    with g' Some show ?thesis by (simp add: getitem_def)
  qed
qed

lemma advance_psbt_fixed:
  assumes "getitem g b = Inr cur" and "i + GAP_LIMIT \<le> cur"
  shows "advance_psbt g (b, i) = (None, g)"
  using assms by (simp add: advance_psbt_def)

lemma advance_scopes_mono:
  "advance_scopes w ss g = (e, g') \<Longrightarrow> list_all2 (\<le>) g g'"
proof (induction ss arbitrary: g)
  case Nil
  then show ?case by (simp add: le_list_refl)
next
  case (Cons s ss)
  show ?case
  proof (cases "get_derivation w (bip32_derivations s)")
    case None
    with Cons show ?thesis by simp
  next
    case (Some res)
    obtain e1 g1 where a: "advance_psbt g res = (e1, g1)" by (cases "advance_psbt g res")
    from advance_psbt_mono[OF a] have m1: "list_all2 (\<le>) g g1" .
    show ?thesis
    proof (cases e1)
      case None
      with Cons.prems Some a have "advance_scopes w ss g1 = (e, g')" by simp
      from m1 Cons.IH[OF this] show ?thesis by (rule le_list_trans)
    next
      case (Some x)
      with Cons.prems \<open>get_derivation w (bip32_derivations s) = Some res\<close> a have "g' = g1" by simp
      with m1 show ?thesis by simp
    qed
  qed
qed

lemma covered_Nil: "covered w [] g"
  by (simp add: covered_def)

lemma covered_Cons:
  "covered w (s # ss) g \<longleftrightarrow>
     (\<forall>b i. get_derivation w (bip32_derivations s) = Some (b, i) \<longrightarrow>
        (\<exists>cur. getitem g b = Inr cur \<and> i + GAP_LIMIT \<le> cur)) \<and> covered w ss g"
  by (simp add: covered_def)

lemma covered_mono:
  assumes "covered w ss g" and "list_all2 (\<le>) g g'"
  shows "covered w ss g'"
  unfolding covered_def
proof (intro ballI allI impI)
  fix s b i
  assume "s \<in> set ss" and "get_derivation w (bip32_derivations s) = Some (b, i)"
  with assms(1) obtain cur where "getitem g b = Inr cur" "i + GAP_LIMIT \<le> cur"
    unfolding covered_def by blast
  with assms(2) show "\<exists>cur. getitem g' b = Inr cur \<and> i + GAP_LIMIT \<le> cur"
    by (intro getitem_mono[of g g' b cur])
qed

lemma advance_scopes_covers:
  "advance_scopes w ss g = (None, g') \<Longrightarrow> covered w ss g'"
proof (induction ss arbitrary: g)
  case Nil
  then show ?case by (simp add: covered_Nil)
next
  case (Cons s ss)
  show ?case
  proof (cases "get_derivation w (bip32_derivations s)")
    case None
    with Cons.prems have "advance_scopes w ss g = (None, g')" by simp
    from Cons.IH[OF this] None show ?thesis by (simp add: covered_Cons)
  next
    case (Some res)
    obtain b i where res: "res = (b, i)" by (cases res)
    obtain e1 g1 where a: "advance_psbt g res = (e1, g1)" by (cases "advance_psbt g res")
    from Cons.prems Some a have e1: "e1 = None" by (cases e1) simp_all
    with Cons.prems Some a have rest: "advance_scopes w ss g1 = (None, g')" by simp
    from a e1 res obtain cur where c: "getitem g1 b = Inr cur" "i + GAP_LIMIT \<le> cur"
      using advance_psbt_covers[of g b i g1] by auto
    from advance_scopes_mono[OF rest] c
    have "\<exists>cur. getitem g' b = Inr cur \<and> i + GAP_LIMIT \<le> cur"
      by (rule getitem_mono)
    with Cons.IH[OF rest] Some res show ?thesis by (simp add: covered_Cons)
  qed
qed

lemma advance_scopes_fixed:
  "covered w ss g \<Longrightarrow> advance_scopes w ss g = (None, g)"
proof (induction ss)
  case Nil
  then show ?case by simp
next
  case (Cons s ss)
  then have rest: "advance_scopes w ss g = (None, g)" by (simp add: covered_Cons)
  show ?case
  proof (cases "get_derivation w (bip32_derivations s)")
    case None
    with rest show ?thesis by simp
  next
    case (Some res)
    obtain b i where res: "res = (b, i)" by (cases res)
    from Cons.prems Some res obtain cur where "getitem g b = Inr cur" "i + GAP_LIMIT \<le> cur"
      unfolding covered_Cons by blast
    then have "advance_psbt g res = (None, g)" unfolding res by (rule advance_psbt_fixed)
    with Some rest show ?thesis by simp
  qed
qed

lemma advance_known_mono:
  "advance_known known is g = (e, g') \<Longrightarrow> list_all2 (\<le>) g g'"
proof (induction "is" arbitrary: g)
  case Nil
  then show ?case by (simp add: le_list_refl)
next
  case (Cons i "is")
  show ?case
  proof (cases "i < length known")
    case False
    with Cons.prems show ?thesis by (simp add: le_list_refl)
  next
    case True
    show ?thesis
    proof (cases "known ! i")
      case None
      with True Cons show ?thesis by simp
    next
      case (Some k)
      show ?thesis
      proof (cases "k + GAP_LIMIT > g ! i")
        case False
        with True Some Cons show ?thesis by simp
      next
        case gt: True
        with True Some Cons.prems
        have "advance_known known is (g[i := k + GAP_LIMIT]) = (e, g')" by simp
        from Cons.IH[OF this] have "list_all2 (\<le>) (g[i := k + GAP_LIMIT]) g'" .
        moreover from gt have "list_all2 (\<le>) g (g[i := k + GAP_LIMIT])"
          by (intro le_list_update) simp
        ultimately show ?thesis by (rule le_list_trans[rotated])
      qed
    qed
  qed
qed

lemma hinted_Cons:
  "hinted known (i # is) g \<longleftrightarrow>
     i < length known \<and> (\<forall>k. known ! i = Some k \<longrightarrow> k + GAP_LIMIT \<le> g ! i) \<and> hinted known is g"
  by (simp add: hinted_def)

lemma advance_known_fixed:
  "hinted known is g \<Longrightarrow> advance_known known is g = (None, g)"
proof (induction "is")
  case Nil
  show ?case by simp
next
  case (Cons i "is")
  then have rest: "advance_known known is g = (None, g)" and lt: "i < length known"
    and le: "\<And>k. known ! i = Some k \<Longrightarrow> k + GAP_LIMIT \<le> g ! i"
    by (simp_all add: hinted_Cons)
  show ?case
  proof (cases "known ! i")
    case None
    with lt rest show ?thesis by simp
  next
    case (Some k)
    from le[OF Some] have "\<not> k + GAP_LIMIT > g ! i" by simp
    with Some lt rest show ?thesis by simp
  qed
qed

lemma advance_known_hinted:
  "advance_known known is g = (None, g') \<Longrightarrow> \<forall>i \<in> set is. i < length g \<Longrightarrow> hinted known is g'"
proof (induction "is" arbitrary: g)
  case Nil
  then show ?case by (simp add: hinted_def)
next
  case (Cons i "is")
  from Cons.prems(1) have lt: "i < length known" by (simp split: if_splits)
  from Cons.prems(2) have ig: "i < length g" and rest: "\<forall>j \<in> set is. j < length g" by simp_all
  show ?case
  proof (cases "known ! i")
    case None
    with lt Cons.prems(1) have "advance_known known is g = (None, g')" by simp
    from Cons.IH[OF this rest] lt None show ?thesis by (simp add: hinted_Cons)
  next
    case (Some k)
    show ?thesis
    proof (cases "k + GAP_LIMIT > g ! i")
      case False
      with lt Some Cons.prems(1) have a: "advance_known known is g = (None, g')" by simp
      from False have "k + GAP_LIMIT \<le> g ! i" by simp
      with advance_known_mono[OF a] ig have "k + GAP_LIMIT \<le> g' ! i"
        by (rule le_list_nth)
      with Cons.IH[OF a rest] lt Some show ?thesis by (simp add: hinted_Cons)
    next
      case True
      let ?g1 = "g[i := k + GAP_LIMIT]"
      from True lt Some Cons.prems(1) have a: "advance_known known is ?g1 = (None, g')" by simp
      from rest have rest1: "\<forall>j \<in> set is. j < length ?g1" by simp
      from ig have i1: "i < length ?g1" and v1: "k + GAP_LIMIT \<le> ?g1 ! i" by simp_all
      from advance_known_mono[OF a] i1 v1 have "k + GAP_LIMIT \<le> g' ! i"
        by (rule le_list_nth)
      with Cons.IH[OF a rest1] lt Some show ?thesis by (simp add: hinted_Cons)
    qed
  qed
qed

lemma get_derivation_cong:
  "descriptor w' = descriptor w \<Longrightarrow> get_derivation w' ders = get_derivation w ders"
proof (induction ders)
  case Nil
  show ?case by simp
next
  case (Cons a ders)
  obtain pub p where a: "a = (pub, p)" by (cases a)
  from Cons show ?case unfolding a by (simp cong: option.case_cong)
qed

lemma script_pubkey_cong:
  assumes "descriptor w' = descriptor w" and "length (gaps w') = length (gaps w)"
  shows "map_sum id fst (script_pubkey w' c) = map_sum id fst (script_pubkey w c)"
proof -
  obtain b i where c: "c = (b, i)" by (cases c)
  show ?thesis
  proof (cases "derive (descriptor w) i (Some b)")
    case (Inl e)
    then show ?thesis by (simp add: c script_pubkey_def assms(1))
  next
    case (Inr dd)
    show ?thesis
      by (cases "py_index (length (gaps w)) b")
         (simp_all add: c script_pubkey_def assms Inr getitem_def)
  qed
qed

lemma owns_cong:
  assumes "descriptor w' = descriptor w" and "length (gaps w') = length (gaps w)"
  shows "owns stype w' t ders scr = owns stype w t ders scr"
proof (cases "get_derivation w ders")
  case None
  then show ?thesis
    by (simp add: owns_def get_derivation_cong[OF assms(1)] assms(1) cong: option.case_cong)
next
  case (Some c)
  from script_pubkey_cong[OF assms, of c]
  have "(case script_pubkey w' c of Inl e \<Rightarrow> Inl e | Inr (sc, g) \<Rightarrow> Inr (sc = x)) =
        (case script_pubkey w c of Inl e \<Rightarrow> Inl e | Inr (sc, g) \<Rightarrow> Inr (sc = x))" for x
    by (cases "script_pubkey w' c"; cases "script_pubkey w c") auto
  with Some show ?thesis
    by (simp add: owns_def get_derivation_cong[OF assms(1)] assms(1) cong: option.case_cong)
qed

lemma owned_inputs_cong:
  assumes "descriptor w' = descriptor w" and "length (gaps w') = length (gaps w)"
  shows "owned_inputs stype w' ins = owned_inputs stype w ins"
proof (induction ins)
  case Nil
  show ?case by simp
next
  case (Cons inp rest)
  show ?case
    by (cases "utxo inp") (simp_all add: owns_cong[OF assms] Cons.IH cong: sum.case_cong)
qed

lemma owned_outputs_cong:
  assumes "descriptor w' = descriptor w" and "length (gaps w') = length (gaps w)"
  shows "owned_outputs stype w' outs vs = owned_outputs stype w outs vs"
proof (induction outs arbitrary: vs)
  case Nil
  show ?case by simp
next
  case (Cons out rest)
  show ?case
    by (cases vs) (simp_all add: owns_cong[OF assms] Cons.IH cong: sum.case_cong)
qed

lemma advance_scopes_cong:
  assumes "descriptor w' = descriptor w"
  shows "advance_scopes w' ss g = advance_scopes w ss g"
proof (induction ss arbitrary: g)
  case Nil
  show ?case by simp
next
  case (Cons s ss)
  show ?case
  proof (cases "get_derivation w (bip32_derivations s)")
    case None
    then show ?thesis by (simp add: get_derivation_cong[OF assms] Cons.IH)
  next
    case (Some res)
    obtain e1 g1 where a: "advance_psbt g res = (e1, g1)" by (cases "advance_psbt g res")
    show ?thesis
      by (cases e1) (simp_all add: get_derivation_cong[OF assms] Some a Cons.IH)
  qed
qed

section \<open>Reconciling the same PSBT twice\<close>

lemma update_from_psbt_mono:
  "update_from_psbt stype w po = (e, g) \<Longrightarrow> list_all2 (\<le>) (gaps w) g"
  by (auto simp: update_from_psbt_def le_list_refl advance_scopes_mono
           split: option.splits sum.splits)

lemma update_from_known_mono:
  "update_from_known known_idxs g = (e, g') \<Longrightarrow> list_all2 (\<le>) g g'"
  by (auto simp: update_from_known_def le_list_refl advance_known_mono split: option.splits)

lemma update_gaps_gaps:
  assumes "update_gaps stype w po known_idxs = (e, w')"
  shows "\<exists>e1 g1 e2 g2. update_from_psbt stype w po = (e1, g1) \<and>
           (case e1 of Some x \<Rightarrow> g2 = g1 | None \<Rightarrow> update_from_known known_idxs g1 = (e2, g2)) \<and>
           gaps w' = g2 \<and> descriptor w' = descriptor w"
proof -
  obtain e1 g1 where p: "update_from_psbt stype w po = (e1, g1)"
    by (cases "update_from_psbt stype w po")
  show ?thesis
  proof (cases e1)
    case (Some x)
    with assms p show ?thesis by (auto simp: update_gaps_def)
  next
    case None
    obtain e2 g2 where k: "update_from_known known_idxs g1 = (e2, g2)"
      by (cases "update_from_known known_idxs g1")
    from assms p None k show ?thesis
      by (cases e2; cases "getitem g2 0") (auto simp: update_gaps_def)
  qed
qed

lemma update_gaps_never_decreases:
  assumes "update_gaps stype w po known_idxs = (e, w')"
  shows "list_all2 (\<le>) (gaps w) (gaps w')"
proof -
  from update_gaps_gaps[OF assms] obtain e1 g1 e2 g2 where
    p: "update_from_psbt stype w po = (e1, g1)" and
    k: "case e1 of Some x \<Rightarrow> g2 = g1 | None \<Rightarrow> update_from_known known_idxs g1 = (e2, g2)" and
    g: "gaps w' = g2" by blast
  from update_from_psbt_mono[OF p] have m1: "list_all2 (\<le>) (gaps w) g1" .
  from k have "list_all2 (\<le>) g1 g2"
    by (cases e1) (simp_all add: le_list_refl update_from_known_mono)
  with m1 g show ?thesis by (auto intro: le_list_trans)
qed

text \<open>
  C7. When \<open>update_gaps\<close> has returned for a PSBT (with or without a vector of
  hints), a second call with the same PSBT, without hints or with the same hints, returns
  and leaves the wallet as it is: every watermark and \<open>unused_recv\<close> are unchanged.
\<close>

theorem update_gaps_idempotent:
  assumes first: "update_gaps stype w (Some p) known_idxs = (None, w1)"
    and again: "known' = None \<or> known' = known_idxs"
  shows "update_gaps stype w1 (Some p) known' = (None, w1)"
proof -
  obtain e1 g1 where P: "update_from_psbt stype w (Some p) = (e1, g1)"
    by (cases "update_from_psbt stype w (Some p)")
  from first P have e1: "e1 = None" by (cases e1) (simp_all add: update_gaps_def)
  obtain e2 g2 where K: "update_from_known known_idxs g1 = (e2, g2)"
    by (cases "update_from_known known_idxs g1")
  from first P e1 K have e2: "e2 = None" by (cases e2) (simp_all add: update_gaps_def)
  from first P e1 K e2 obtain g0 where G: "getitem g2 0 = Inr g0"
    and w1: "w1 = w\<lparr>gaps := g2, unused_recv := g0 - GAP_LIMIT\<rparr>"
    by (cases "getitem g2 0") (simp_all add: update_gaps_def)
  from P e1 obtain si so where si: "owned_inputs stype w (inputs p) = Inr si"
    and so: "owned_outputs stype w (outputs p) (vout p) = Inr so"
    and A: "advance_scopes w (si @ so) (gaps w) = (None, g1)"
    by (auto simp: update_from_psbt_def split: sum.splits)
  from K e2 have m2: "list_all2 (\<le>) g1 g2" by (simp add: update_from_known_mono)
  from A have m1: "list_all2 (\<le>) (gaps w) g1" by (rule advance_scopes_mono)
  from m1 m2 have len: "length g2 = length (gaps w)" "length g2 = length g1"
    by (simp_all add: list_all2_lengthD)
  have d: "descriptor w1 = descriptor w" and l: "length (gaps w1) = length (gaps w)"
    and gw1: "gaps w1 = g2"
    by (simp_all add: w1 len)
  from advance_scopes_covers[OF A] m2 have "covered w (si @ so) g2" by (rule covered_mono)
  then have "advance_scopes w (si @ so) g2 = (None, g2)" by (rule advance_scopes_fixed)
  then have P': "update_from_psbt stype w1 (Some p) = (None, g2)"
    by (simp add: update_from_psbt_def owned_inputs_cong[OF d l] owned_outputs_cong[OF d l]
          si so advance_scopes_cong[OF d] gw1)
  have K': "update_from_known known' g2 = (None, g2)"
  proof (cases known')
    case None
    then show ?thesis by (simp add: update_from_known_def)
  next
    case (Some known)
    with again have "known_idxs = Some known" by simp
    with K e2 have "advance_known known [0..<length g1] g1 = (None, g2)"
      by (simp add: update_from_known_def)
    then have "hinted known [0..<length g1] g2" by (rule advance_known_hinted) simp
    then have "advance_known known [0..<length g1] g2 = (None, g2)" by (rule advance_known_fixed)
    with Some len(2) show ?thesis by (simp add: update_from_known_def)
  qed
  have "w1\<lparr>gaps := g2, unused_recv := g0 - GAP_LIMIT\<rparr> = w1" by (simp add: w1)
  with P' K' G show ?thesis by (simp add: update_gaps_def)
qed

theorem update_gaps_idempotent_witness:
  "fst (update_gaps ex_stype ex_wallet (Some (ex_psbt [(0, 5), (1, 2)])) (Some [Some 30, None])) = None \<and>
   gaps (snd (update_gaps ex_stype ex_wallet (Some (ex_psbt [(0, 5), (1, 2)])) (Some [Some 30, None])))
     = [50, 23] \<and>
   update_gaps ex_stype
     (snd (update_gaps ex_stype ex_wallet (Some (ex_psbt [(0, 5), (1, 2)])) (Some [Some 30, None])))
     (Some (ex_psbt [(0, 5), (1, 2)])) None
   = (None, snd (update_gaps ex_stype ex_wallet (Some (ex_psbt [(0, 5), (1, 2)])) (Some [Some 30, None])))"
proof -
  let ?U = "update_gaps ex_stype ex_wallet (Some (ex_psbt [(0, 5), (1, 2)])) (Some [Some 30, None])"
  have f: "fst ?U = None" by code_simp
  have g: "gaps (snd ?U) = [50, 23]" by code_simp
  from f have h: "?U = (None, snd ?U)" by (simp add: prod_eq_iff)
  from update_gaps_idempotent [OF h, of None] f g show ?thesis by simp
qed

section \<open>The four checks of \<open>owns\<close>\<close>

lemma get_derivation_None_iff:
  "get_derivation w ders = None \<longleftrightarrow>
     (\<forall>e \<in> set ders. \<not> (2 \<le> length (dp_derivation (snd e)) \<and>
                          check_derivation (descriptor w) (snd e) \<noteq> None))"
proof (induction ders)
  case Nil
  show ?case by simp
next
  case (Cons a ders)
  obtain pub p where a: "a = (pub, p)" by (cases a)
  show ?case
  proof (cases "2 \<le> length (dp_derivation p)")
    case False
    with Cons show ?thesis unfolding a by simp
  next
    case True
    with Cons show ?thesis unfolding a
      by (cases "check_derivation (descriptor w) p") simp_all
  qed
qed

lemma get_derivation_first:
  assumes "get_derivation w ders = Some der"
  shows "\<exists>pre e post. ders = pre @ e # post \<and>
           2 \<le> length (dp_derivation (snd e)) \<and>
           check_derivation (descriptor w) (snd e) = Some der \<and>
           get_derivation w pre = None"
  using assms
proof (induction ders)
  case Nil
  then show ?case by simp
next
  case (Cons a ders)
  obtain pub p where a: "a = (pub, p)" by (cases a)
  show ?case
  proof (cases "2 \<le> length (dp_derivation p) \<and> check_derivation (descriptor w) p \<noteq> None")
    case True
    with Cons.prems have "check_derivation (descriptor w) p = Some der"
      unfolding a by auto
    with True have "a # ders = [] @ a # ders \<and> 2 \<le> length (dp_derivation (snd a)) \<and>
        check_derivation (descriptor w) (snd a) = Some der \<and> get_derivation w [] = None"
      by (simp add: a)
    then show ?thesis by blast
  next
    case False
    with Cons.prems have "get_derivation w ders = Some der"
      unfolding a by (auto split: if_splits option.splits)
    from Cons.IH[OF this] obtain pre e post where
      d: "ders = pre @ e # post" and e: "2 \<le> length (dp_derivation (snd e))"
        "check_derivation (descriptor w) (snd e) = Some der" and n: "get_derivation w pre = None"
      by blast
    from False n have "get_derivation w (a # pre) = None"
      unfolding a by (auto split: option.splits)
    with d e have "a # ders = (a # pre) @ e # post \<and> 2 \<le> length (dp_derivation (snd e)) \<and>
        check_derivation (descriptor w) (snd e) = Some der \<and> get_derivation w (a # pre) = None"
      by simp
    then show ?thesis by blast
  qed
qed

lemma owns_type_mismatch:
  "stype (txo_script_pubkey t) \<noteq> scriptpubkey_type (descriptor w) \<Longrightarrow>
   owns stype w t ders scr = Inr False"
  by (simp add: owns_def)

lemma owns_length_mismatch:
  "stype (txo_script_pubkey t) = scriptpubkey_type (descriptor w) \<Longrightarrow>
   scr = Some s \<Longrightarrow> length (data s) \<noteq> script_len (descriptor w) \<Longrightarrow>
   owns stype w t ders scr = Inr False"
  by (simp add: owns_def)

lemma owns_after_quick_checks:
  assumes "stype (txo_script_pubkey t) = scriptpubkey_type (descriptor w)"
    and "\<forall>s. scr = Some s \<longrightarrow> length (data s) = script_len (descriptor w)"
  shows "owns stype w t ders scr =
           (case get_derivation w ders of
              None \<Rightarrow> Inr False
            | Some der \<Rightarrow>
                (case script_pubkey w der of
                   Inl e \<Rightarrow> Inl e
                 | Inr (sc, g) \<Rightarrow> Inr (sc = txo_script_pubkey t)))"
  using assms by (cases scr) (simp_all add: owns_def)


lemma get_derivation_skip:
  assumes "\<forall>e \<in> set pre. \<not> (2 \<le> length (dp_derivation (snd e)) \<and>
                          check_derivation (descriptor w) (snd e) \<noteq> None)"
  shows "get_derivation w (pre @ rest) = get_derivation w rest"
  using assms
proof (induction pre)
  case Nil
  show ?case by simp
next
  case (Cons a pre)
  obtain pub p where a: "a = (pub, p)" by (cases a)
  from Cons.prems have rest: "\<forall>e \<in> set pre. \<not> (2 \<le> length (dp_derivation (snd e)) \<and>
                          check_derivation (descriptor w) (snd e) \<noteq> None)"
    and here: "\<not> (2 \<le> length (dp_derivation p) \<and> check_derivation (descriptor w) p \<noteq> None)"
    by (simp_all add: a)
  from here Cons.IH[OF rest] show ?case
    unfolding a by (cases "check_derivation (descriptor w) p") auto
qed

lemma get_derivation_at_first:
  assumes "ders = pre @ (pub, p) # post"
    and "\<forall>e \<in> set pre. \<not> (2 \<le> length (dp_derivation (snd e)) \<and>
                          check_derivation (descriptor w) (snd e) \<noteq> None)"
    and "2 \<le> length (dp_derivation p)"
    and "check_derivation (descriptor w) p = Some der"
  shows "get_derivation w ders = Some der"
  unfolding assms(1) get_derivation_skip[OF assms(2)] using assms(3,4) by simp

lemma get_derivation_Some_iff:
  "get_derivation w ders = Some der \<longleftrightarrow>
     (\<exists>pre pub p post.
        ders = pre @ (pub, p) # post \<and>
        (\<forall>e \<in> set pre. \<not> (2 \<le> length (dp_derivation (snd e)) \<and>
                          check_derivation (descriptor w) (snd e) \<noteq> None)) \<and>
        2 \<le> length (dp_derivation p) \<and>
        check_derivation (descriptor w) p = Some der)"
proof
  assume "get_derivation w ders = Some der"
  from get_derivation_first[OF this] obtain pre e post where
    d: "ders = pre @ e # post" and l: "2 \<le> length (dp_derivation (snd e))"
    and c: "check_derivation (descriptor w) (snd e) = Some der"
    and n: "get_derivation w pre = None" by blast
  from n have "\<forall>x \<in> set pre. \<not> (2 \<le> length (dp_derivation (snd x)) \<and>
                          check_derivation (descriptor w) (snd x) \<noteq> None)"
    by (rule iffD1[OF get_derivation_None_iff])
  with d l c have "ders = pre @ (fst e, snd e) # post \<and>
      (\<forall>x \<in> set pre. \<not> (2 \<le> length (dp_derivation (snd x)) \<and>
                          check_derivation (descriptor w) (snd x) \<noteq> None)) \<and>
      2 \<le> length (dp_derivation (snd e)) \<and> check_derivation (descriptor w) (snd e) = Some der"
    by simp
  then show "\<exists>pre pub p post.
        ders = pre @ (pub, p) # post \<and>
        (\<forall>e \<in> set pre. \<not> (2 \<le> length (dp_derivation (snd e)) \<and>
                          check_derivation (descriptor w) (snd e) \<noteq> None)) \<and>
        2 \<le> length (dp_derivation p) \<and>
        check_derivation (descriptor w) p = Some der" by blast
next
  assume "\<exists>pre pub p post.
        ders = pre @ (pub, p) # post \<and>
        (\<forall>e \<in> set pre. \<not> (2 \<le> length (dp_derivation (snd e)) \<and>
                          check_derivation (descriptor w) (snd e) \<noteq> None)) \<and>
        2 \<le> length (dp_derivation p) \<and>
        check_derivation (descriptor w) p = Some der"
  then obtain pre pub p post where
    "ders = pre @ (pub, p) # post"
    "\<forall>e \<in> set pre. \<not> (2 \<le> length (dp_derivation (snd e)) \<and>
                          check_derivation (descriptor w) (snd e) \<noteq> None)"
    "2 \<le> length (dp_derivation p)"
    "check_derivation (descriptor w) p = Some der" by blast
  then show "get_derivation w ders = Some der" by (rule get_derivation_at_first)
qed

text \<open>
  C4, as amended. \<open>owns\<close> returns \<open>True\<close> exactly when the four checks pass: the
  type of the script-pubkey is the descriptor's; the script, if present, has the
  descriptor's script length; some hint with at least two path components passes the
  derivation check, and the first such hint in iteration order gives the coordinate; and
  the script-pubkey derived at that coordinate is the scope's. The checks are made in this
  order. A failing check 1, 2 or 3 gives \<open>False\<close>; once a coordinate is recovered, the
  result is what \<open>script_pubkey\<close> gives for it: the exception that it raises for a
  coordinate outside the legal range, and otherwise whether the derived script-pubkey
  equals the scope's.
\<close>

theorem owns_four_checks:
  "(owns stype w t ders scr = Inr True \<longleftrightarrow>
      stype (txo_script_pubkey t) = scriptpubkey_type (descriptor w) \<and>
      (\<forall>s. scr = Some s \<longrightarrow> length (data s) = script_len (descriptor w)) \<and>
      (\<exists>pre pub p post der g.
         ders = pre @ (pub, p) # post \<and>
         (\<forall>e \<in> set pre. \<not> (2 \<le> length (dp_derivation (snd e)) \<and>
                           check_derivation (descriptor w) (snd e) \<noteq> None)) \<and>
         2 \<le> length (dp_derivation p) \<and>
         check_derivation (descriptor w) p = Some der \<and>
         script_pubkey w der = Inr (txo_script_pubkey t, g))) \<and>
   (stype (txo_script_pubkey t) \<noteq> scriptpubkey_type (descriptor w) \<longrightarrow>
      owns stype w t ders scr = Inr False) \<and>
   (stype (txo_script_pubkey t) = scriptpubkey_type (descriptor w) \<and>
    (\<exists>s. scr = Some s \<and> length (data s) \<noteq> script_len (descriptor w)) \<longrightarrow>
      owns stype w t ders scr = Inr False) \<and>
   (stype (txo_script_pubkey t) = scriptpubkey_type (descriptor w) \<and>
    (\<forall>s. scr = Some s \<longrightarrow> length (data s) = script_len (descriptor w)) \<and>
    (\<forall>e \<in> set ders. \<not> (2 \<le> length (dp_derivation (snd e)) \<and>
                        check_derivation (descriptor w) (snd e) \<noteq> None)) \<longrightarrow>
      owns stype w t ders scr = Inr False) \<and>
   (\<forall>pre pub p post der.
      stype (txo_script_pubkey t) = scriptpubkey_type (descriptor w) \<and>
      (\<forall>s. scr = Some s \<longrightarrow> length (data s) = script_len (descriptor w)) \<and>
      ders = pre @ (pub, p) # post \<and>
      (\<forall>e \<in> set pre. \<not> (2 \<le> length (dp_derivation (snd e)) \<and>
                        check_derivation (descriptor w) (snd e) \<noteq> None)) \<and>
      2 \<le> length (dp_derivation p) \<and>
      check_derivation (descriptor w) p = Some der \<longrightarrow>
      owns stype w t ders scr =
        (case script_pubkey w der of
           Inl err \<Rightarrow> Inl err
         | Inr (sc, g) \<Rightarrow> Inr (sc = txo_script_pubkey t)))"
proof -
  let ?c1 = "stype (txo_script_pubkey t) = scriptpubkey_type (descriptor w)"
  let ?c2 = "\<forall>s. scr = Some s \<longrightarrow> length (data s) = script_len (descriptor w)"
  let ?first = "\<lambda>pre pub p post der. ders = pre @ (pub, p) # post \<and>
         (\<forall>e \<in> set pre. \<not> (2 \<le> length (dp_derivation (snd e)) \<and>
                           check_derivation (descriptor w) (snd e) \<noteq> None)) \<and>
         2 \<le> length (dp_derivation p) \<and>
         check_derivation (descriptor w) p = Some der"
  have n1: "\<not> ?c1 \<Longrightarrow> owns stype w t ders scr = Inr False"
    by (rule owns_type_mismatch)
  have n2: "?c1 \<Longrightarrow> \<not> ?c2 \<Longrightarrow> owns stype w t ders scr = Inr False"
    using owns_length_mismatch[of stype t w scr _ ders] by blast
  have n3: "owns stype w t ders scr = Inr False"
    if "?c1" "?c2" "\<forall>e \<in> set ders. \<not> (2 \<le> length (dp_derivation (snd e)) \<and>
                        check_derivation (descriptor w) (snd e) \<noteq> None)"
  proof -
    from that(3) have "get_derivation w ders = None" by (rule iffD2[OF get_derivation_None_iff])
    with that(1,2) show ?thesis by (simp add: owns_after_quick_checks)
  qed
  have n4: "owns stype w t ders scr =
        (case script_pubkey w der of
           Inl err \<Rightarrow> Inl err
         | Inr (sc, g) \<Rightarrow> Inr (sc = txo_script_pubkey t))"
    if "?c1" "?c2" "?first pre pub p post der" for pre pub p post der
  proof -
    from that(3) have "get_derivation w ders = Some der"
      by (intro get_derivation_at_first[of ders pre pub p post w der]) simp_all
    with that(1,2) show ?thesis by (simp add: owns_after_quick_checks)
  qed
  have iff: "owns stype w t ders scr = Inr True \<longleftrightarrow>
      ?c1 \<and> ?c2 \<and> (\<exists>pre pub p post der g. ?first pre pub p post der \<and>
         script_pubkey w der = Inr (txo_script_pubkey t, g))"
  proof
    assume tr: "owns stype w t ders scr = Inr True"
    from tr n1 have c1: ?c1 by auto
    from tr n2 c1 have c2: ?c2 by auto
    from tr c1 c2 obtain der where d: "get_derivation w ders = Some der"
      by (cases "get_derivation w ders") (auto simp: owns_after_quick_checks)
    from tr c1 c2 d obtain sc g where s: "script_pubkey w der = Inr (sc, g)"
      by (cases "script_pubkey w der") (auto simp: owns_after_quick_checks)
    from tr c1 c2 d s have e: "sc = txo_script_pubkey t"
      by (simp add: owns_after_quick_checks)
    from d obtain pre pub p post where "?first pre pub p post der"
      unfolding get_derivation_Some_iff by blast
    with s e have "\<exists>pre pub p post der g. ?first pre pub p post der \<and>
         script_pubkey w der = Inr (txo_script_pubkey t, g)" by blast
    with c1 c2 show "?c1 \<and> ?c2 \<and> (\<exists>pre pub p post der g. ?first pre pub p post der \<and>
         script_pubkey w der = Inr (txo_script_pubkey t, g))" by blast
  next
    assume a: "?c1 \<and> ?c2 \<and> (\<exists>pre pub p post der g. ?first pre pub p post der \<and>
         script_pubkey w der = Inr (txo_script_pubkey t, g))"
    then obtain pre pub p post der g where f: "?first pre pub p post der"
      and s: "script_pubkey w der = Inr (txo_script_pubkey t, g)" by blast
    from a have c1: ?c1 and c2: ?c2 by blast+
    from n4[OF c1 c2 f] s show "owns stype w t ders scr = Inr True" by simp
  qed
  from n4 have n4': "\<forall>pre pub p post der. ?c1 \<and> ?c2 \<and> ?first pre pub p post der \<longrightarrow>
      owns stype w t ders scr =
        (case script_pubkey w der of
           Inl err \<Rightarrow> Inl err
         | Inr (sc, g) \<Rightarrow> Inr (sc = txo_script_pubkey t))" by blast
  have "(owns stype w t ders scr = Inr True \<longleftrightarrow>
      ?c1 \<and> ?c2 \<and> (\<exists>pre pub p post der g. ?first pre pub p post der \<and>
         script_pubkey w der = Inr (txo_script_pubkey t, g))) \<and>
    (\<not> ?c1 \<longrightarrow> owns stype w t ders scr = Inr False) \<and>
    (?c1 \<and> (\<exists>s. scr = Some s \<and> length (data s) \<noteq> script_len (descriptor w)) \<longrightarrow>
       owns stype w t ders scr = Inr False) \<and>
    (?c1 \<and> ?c2 \<and> (\<forall>e \<in> set ders. \<not> (2 \<le> length (dp_derivation (snd e)) \<and>
                        check_derivation (descriptor w) (snd e) \<noteq> None)) \<longrightarrow>
       owns stype w t ders scr = Inr False) \<and>
    (\<forall>pre pub p post der. ?c1 \<and> ?c2 \<and> ?first pre pub p post der \<longrightarrow>
      owns stype w t ders scr =
        (case script_pubkey w der of
           Inl err \<Rightarrow> Inl err
         | Inr (sc, g) \<Rightarrow> Inr (sc = txo_script_pubkey t)))"
    using iff n1 n2 n3 n4' by blast
  then show ?thesis by simp
qed

theorem owns_four_checks_witness:
  "check_derivation (descriptor ex_wallet) (ex_path 7 7) = None \<and>
   check_derivation (descriptor ex_wallet) (ex_path 0 5) = Some (0, 5) \<and>
   script_pubkey ex_wallet (0, 5) = Inr (txo_script_pubkey (ex_out 0 5), 20) \<and>
   owns ex_stype ex_wallet (ex_out 0 5)
     (([0x03], ex_path 7 7) # bip32_derivations (ex_scope 0 5)) None = Inr True \<and>
   owns ex_stype ex_wallet (ex_out 1 5)
     (([0x03], ex_path 7 7) # bip32_derivations (ex_scope 0 5)) None = Inr False"
proof -
  let ?ders = "([0x03], ex_path 7 7) # bip32_derivations (ex_scope 0 5)"
  let ?pre = "[([0x03 :: 8 word], ex_path 7 7)]"
  note T = owns_four_checks [of ex_stype ex_wallet "ex_out 0 5" ?ders None]
  note F = owns_four_checks [of ex_stype ex_wallet "ex_out 1 5" ?ders None]
  have c1: "ex_stype (txo_script_pubkey (ex_out 0 5)) = scriptpubkey_type (descriptor ex_wallet)"
    by code_simp
  have c1': "ex_stype (txo_script_pubkey (ex_out 1 5)) = scriptpubkey_type (descriptor ex_wallet)"
    by code_simp
  have c2: "\<forall>s. (None :: script option) = Some s \<longrightarrow>
              length (data s) = script_len (descriptor ex_wallet)"
    by simp
  have bad: "check_derivation (descriptor ex_wallet) (ex_path 7 7) = None" by code_simp
  have good: "check_derivation (descriptor ex_wallet) (ex_path 0 5) = Some (0, 5)" by code_simp
  have e: "?ders = ?pre @ ([0x02], ex_path 0 5) # []" by (simp add: ex_scope_def)
  have pre: "\<forall>e \<in> set ?pre. \<not> (2 \<le> length (dp_derivation (snd e)) \<and>
               check_derivation (descriptor ex_wallet) (snd e) \<noteq> None)"
    by (simp add: bad)
  have l: "2 \<le> length (dp_derivation (ex_path 0 5))" by (simp add: ex_path_def)
  have s: "script_pubkey ex_wallet (0, 5) = Inr (txo_script_pubkey (ex_out 0 5), 20)"
    by code_simp
  have ne: "txo_script_pubkey (ex_out 0 5) \<noteq> txo_script_pubkey (ex_out 1 5)"
    by code_simp
  from e pre l good s
  have ex: "\<exists>pre pub p post der g.
         ?ders = pre @ (pub, p) # post \<and>
         (\<forall>e \<in> set pre. \<not> (2 \<le> length (dp_derivation (snd e)) \<and>
                           check_derivation (descriptor ex_wallet) (snd e) \<noteq> None)) \<and>
         2 \<le> length (dp_derivation p) \<and>
         check_derivation (descriptor ex_wallet) p = Some der \<and>
         script_pubkey ex_wallet der = Inr (txo_script_pubkey (ex_out 0 5), g)"
    by blast
  from c1 c2 ex have t: "owns ex_stype ex_wallet (ex_out 0 5) ?ders None = Inr True"
    by (intro iffD2[OF conjunct1[OF T]] conjI)
  note L = F [THEN conjunct2, THEN conjunct2, THEN conjunct2, THEN conjunct2, rule_format,
              of ?pre "[0x02]" "ex_path 0 5" "[]" "(0, 5)"]
  from c1' c2 e pre l good
  have "owns ex_stype ex_wallet (ex_out 1 5) ?ders None =
          (case script_pubkey ex_wallet (0, 5) of
             Inl err \<Rightarrow> Inl err
           | Inr (sc, g) \<Rightarrow> Inr (sc = txo_script_pubkey (ex_out 1 5)))"
    by (intro L conjI)
  with s ne have f: "owns ex_stype ex_wallet (ex_out 1 5) ?ders None = Inr False" by simp
  from bad good s t f show ?thesis by blast
qed


text \<open>
  As stated, with every failing check giving \<open>False\<close>, the claim fails where the
  recovered coordinate cannot be derived: for a hint whose index is \<open>2^31\<close> the
  first three checks pass and \<open>owns\<close> raises the \<open>WalletError\<close> of
  \<open>script_pubkey\<close>.
\<close>

theorem owns_raises_counterexample:
  "ex_stype (txo_script_pubkey (ex_out 0 5)) = scriptpubkey_type (descriptor ex_wallet) \<and>
   check_derivation (descriptor ex_wallet) (ex_path 0 2147483648) = Some (0, 2147483648) \<and>
   owns ex_stype ex_wallet (ex_out 0 5) [([0x02], ex_path 0 2147483648)] None
     = Inl (WalletError ''Invalid index'')"
  by code_simp


section \<open>Round trip of derivation and ownership\<close>

lemma get_derivation_first_resolves:
  assumes "2 \<le> length (dp_derivation p)"
    and "check_derivation (descriptor w) p = Some c"
    and "\<forall>e \<in> set pre. 2 \<le> length (dp_derivation (snd e)) \<longrightarrow>
           check_derivation (descriptor w) (snd e) = None \<or>
           check_derivation (descriptor w) (snd e) = Some c"
  shows "get_derivation w (pre @ (pub, p) # post) = Some c"
  using assms(3)
proof (induction pre)
  case Nil
  from assms(1,2) show ?case by simp
next
  case (Cons a pre)
  obtain pub' p' where a: "a = (pub', p')" by (cases a)
  from Cons have ih: "get_derivation w (pre @ (pub, p) # post) = Some c" by simp
  show ?case
  proof (cases "2 \<le> length (dp_derivation p')")
    case False
    with ih show ?thesis by (simp add: a)
  next
    case True
    with Cons.prems have "check_derivation (descriptor w) p' = None \<or>
        check_derivation (descriptor w) p' = Some c" by (simp add: a)
    with True ih show ?thesis by (auto simp: a)
  qed
qed

text \<open>
  Under the conditions of the round trip on the script and on the hints, \<open>owns\<close>
  returns what its first check finds: whether the library gives the script-pubkey the
  descriptor's type.
\<close>

lemma owns_round_trip_type:
  assumes spk: "script_pubkey w (b, i) = Inr (txo_script_pubkey t, g)"
    and len: "\<forall>s. scr = Some s \<longrightarrow> length (data s) = script_len (descriptor w)"
    and hint: "ders = pre @ (pub, p) # post" "2 \<le> length (dp_derivation p)"
      "check_derivation (descriptor w) p = Some (b, i)"
    and first: "\<forall>e \<in> set pre. 2 \<le> length (dp_derivation (snd e)) \<longrightarrow>
           check_derivation (descriptor w) (snd e) = None \<or>
           check_derivation (descriptor w) (snd e) = Some (b, i)"
  shows "owns stype w t ders scr =
           Inr (stype (txo_script_pubkey t) = scriptpubkey_type (descriptor w))"
proof (cases "stype (txo_script_pubkey t) = scriptpubkey_type (descriptor w)")
  case False
  then show ?thesis by (simp add: owns_type_mismatch)
next
  case True
  from hint(2,3) first have "get_derivation w ders = Some (b, i)"
    unfolding hint(1) by (rule get_derivation_first_resolves)
  with True len spk show ?thesis by (simp add: owns_after_quick_checks)
qed

text \<open>
  C5, as amended. If the scope's script-pubkey is the wallet's \<open>script_pubkey\<close> at
  \<open>(b, i)\<close> and the library gives it the descriptor's type, the scope's script (when
  present) has the descriptor's script length, and the first hint of the scope, in
  iteration order, that has at least two path components and passes the derivation check
  resolves to \<open>(b, i)\<close>, then \<open>owns\<close> returns \<open>True\<close> and
  \<open>get_derivation\<close> recovers \<open>(b, i)\<close>, a coordinate within the bounds. Hints
  after that one may resolve to any coordinate.
\<close>

theorem owns_round_trip:
  assumes spk: "script_pubkey w (b, i) = Inr (txo_script_pubkey t, g)"
    and ty: "stype (txo_script_pubkey t) = scriptpubkey_type (descriptor w)"
    and len: "\<forall>s. scr = Some s \<longrightarrow> length (data s) = script_len (descriptor w)"
    and hint: "ders = pre @ (pub, p) # post" "2 \<le> length (dp_derivation p)"
      "check_derivation (descriptor w) p = Some (b, i)"
    and first: "\<forall>e \<in> set pre. 2 \<le> length (dp_derivation (snd e)) \<longrightarrow>
           check_derivation (descriptor w) (snd e) = None \<or>
           check_derivation (descriptor w) (snd e) = Some (b, i)"
  shows "owns stype w t ders scr = Inr True \<and> get_derivation w ders = Some (b, i) \<and>
         0 \<le> b \<and> b < num_branches (descriptor w) \<and> 0 \<le> i \<and> i < 2 ^ 31"
proof -
  from hint(2,3) first have d: "get_derivation w ders = Some (b, i)"
    unfolding hint(1) by (rule get_derivation_first_resolves)
  from ty len d spk have o: "owns stype w t ders scr = Inr True"
    by (simp add: owns_after_quick_checks)
  from spk have "0 \<le> b \<and> b < num_branches (descriptor w) \<and> 0 \<le> i \<and> i < 2 ^ 31"
    by (auto simp: script_pubkey_def split: if_splits)
  with d o show ?thesis by simp
qed

theorem owns_round_trip_witness:
  "script_pubkey ex_wallet (0, 5) = Inr (txo_script_pubkey (ex_out 0 5), 20) \<and>
   check_derivation (descriptor ex_wallet) (ex_path 7 7) = None \<and>
   check_derivation (descriptor ex_wallet) (ex_path 0 5) = Some (0, 5) \<and>
   check_derivation (descriptor ex_wallet) (ex_path 1 9) = Some (1, 9) \<and>
   owns ex_stype ex_wallet (ex_out 0 5)
     [([0x03], ex_path 7 7), ([0x02], ex_path 0 5), ([0x04], ex_path 1 9)]
     (Some (Script [1, 2, 3])) = Inr True \<and>
   get_derivation ex_wallet
     [([0x03], ex_path 7 7), ([0x02], ex_path 0 5), ([0x04], ex_path 1 9)] = Some (0, 5)"
proof -
  let ?ders = "[([0x03 :: 8 word], ex_path 7 7), ([0x02], ex_path 0 5), ([0x04], ex_path 1 9)]"
  let ?pre = "[([0x03 :: 8 word], ex_path 7 7)]"
  let ?post = "[([0x04 :: 8 word], ex_path 1 9)]"
  have spk: "script_pubkey ex_wallet (0, 5) = Inr (txo_script_pubkey (ex_out 0 5), 20)"
    by code_simp
  have ty: "ex_stype (txo_script_pubkey (ex_out 0 5)) = scriptpubkey_type (descriptor ex_wallet)"
    by code_simp
  have len: "\<forall>s. Some (Script [1, 2, 3]) = Some s \<longrightarrow>
               length (data s) = script_len (descriptor ex_wallet)"
    by (simp add: ex_wallet_def Wallet_def ex_descriptor_def ex_descriptor_of_def)
  have bad: "check_derivation (descriptor ex_wallet) (ex_path 7 7) = None" by code_simp
  have other: "check_derivation (descriptor ex_wallet) (ex_path 1 9) = Some (1, 9)" by code_simp
  have h1: "?ders = ?pre @ ([0x02], ex_path 0 5) # ?post" by simp
  have h2: "2 \<le> length (dp_derivation (ex_path 0 5))" by (simp add: ex_path_def)
  have h3: "check_derivation (descriptor ex_wallet) (ex_path 0 5) = Some (0, 5)" by code_simp
  have first: "\<forall>e \<in> set ?pre. 2 \<le> length (dp_derivation (snd e)) \<longrightarrow>
           check_derivation (descriptor ex_wallet) (snd e) = None \<or>
           check_derivation (descriptor ex_wallet) (snd e) = Some (0, 5)"
    by (simp add: bad)
  from owns_round_trip [where w = ex_wallet and b = 0 and i = 5 and t = "ex_out 0 5"
         and g = 20 and stype = ex_stype and scr = "Some (Script [1, 2, 3])"
         and pub = "[0x02]" and p = "ex_path 0 5" and ders = ?ders and pre = ?pre
         and post = ?post] spk ty len h1 h2 h3 first bad other
  show ?thesis by blast
qed

text \<open>
  As stated, without the conditions on the script and on the earlier hints, the round trip
  fails: a scope with the right script-pubkey and the right hint is not owned when it
  carries a script of another length, or when a hint for another coordinate comes first.
\<close>

theorem owns_round_trip_counterexample:
  "script_pubkey ex_wallet (0, 5) = Inr (txo_script_pubkey (ex_out 0 5), 20) \<and>
   bip32_derivations (ex_scope 0 5) = [([0x02], ex_path 0 5)] \<and>
   check_derivation (descriptor ex_wallet) (ex_path 0 5) = Some (0, 5) \<and>
   owns ex_stype ex_wallet (ex_out 0 5) (bip32_derivations (ex_scope 0 5))
     (Some (Script [1, 2, 3, 4])) = Inr False \<and>
   check_derivation (descriptor ex_wallet) (ex_path 1 9) = Some (1, 9) \<and>
   owns ex_stype ex_wallet (ex_out 0 5)
     (([0x03], ex_path 1 9) # bip32_derivations (ex_scope 0 5)) None = Inr False"
  by code_simp

section \<open>Parsing the display string\<close>

lemma str_split_no_sep: "c \<notin> set s \<Longrightarrow> str_split c s = [s]"
  by (induction s) auto

lemma str_split_at_sep: "c \<notin> set a \<Longrightarrow> str_split c (a @ c # b) = a # str_split c b"
proof (induction a)
  case Nil
  show ?case by simp
next
  case (Cons x a)
  then show ?case by (cases "str_split c b") auto
qed

lemma str_split_once:
  "c \<notin> set a \<Longrightarrow> c \<notin> set b \<Longrightarrow> str_split c (a @ c # b) = [a, b]"
  by (simp add: str_split_at_sep str_split_no_sep)

text \<open>
  C8, as amended. A display string with exactly one \<open>&\<close> is parsed into the name
  before it and the descriptor string after it, and the display string of a wallet is its
  name, \<open>&\<close> and its descriptor.
\<close>

theorem parse_single_ampersand:
  assumes "CHR ''&'' \<notin> set nm" and "CHR ''&'' \<notin> set d"
  shows "parse from_string (nm @ ''&'' @ d) p =
           (case from_descriptor from_string d p of
              Inl e \<Rightarrow> Inl e
            | Inr w \<Rightarrow> Inr (w\<lparr>name := nm\<rparr>)) \<and>
         wallet_str w = name w @ ''&'' @ to_string (descriptor w)"
proof -
  from assms have "str_split CHR ''&'' (nm @ CHR ''&'' # d) = [nm, d]" by (rule str_split_once)
  then show ?thesis by (simp add: parse_def wallet_str_def)
qed

theorem parse_single_ampersand_witness:
  "name_and_descriptor (parse ex_from_string (''cold'' @ ''&'' @ ''wsh(pk(xpub))#8zl0zxma'') None)
     = Inr (''cold'', ''wsh(pk(xpub/{0,1}/*))'')"
proof -
  have a: "CHR ''&'' \<notin> set ''cold''" by simp
  have b: "CHR ''&'' \<notin> set ''wsh(pk(xpub))#8zl0zxma''" by simp
  have f: "name_and_descriptor (from_descriptor ex_from_string ''wsh(pk(xpub))#8zl0zxma'' None)
           = Inr (''Untitled'', ''wsh(pk(xpub/{0,1}/*))'')"
    by code_simp
  from parse_single_ampersand [OF a b, of ex_from_string None] f show ?thesis
    by (cases "from_descriptor ex_from_string ''wsh(pk(xpub))#8zl0zxma'' None")
       (auto simp: name_and_descriptor_def)
qed

text \<open>
  \<open>split("&")\<close> cuts at every \<open>&\<close>. When the second \<open>&\<close> stands after
  the \<open>#\<close> of the descriptor string, the text after the first \<open>&\<close> is a
  descriptor string that \<open>from_descriptor\<close> accepts, since it drops what follows
  the \<open>#\<close>; but the string has three parts and the assignment to
  \<open>name, desc\<close> raises.
\<close>

theorem parse_two_ampersands_counterexample:
  "name_and_descriptor (parse ex_from_string ''cold&wsh(pk(xpub/{0,1}/*))#a&b'' None)
     = Inl ValueError \<and>
   name_and_descriptor (from_descriptor ex_from_string ''wsh(pk(xpub/{0,1}/*))#a&b'' None)
     = Inr (''Untitled'', ''wsh(pk(xpub/{0,1}/*))'')"
  by code_simp

end
